theory Spec2Isabelle
  imports Main "HOL-Library.Char_ord" "HOL-Library.List_Lexorder"
begin

section \<open>Python values\<close>

text \<open>
  An inventory is whatever \<^verbatim>\<open>json.load\<close> returns: \<^verbatim>\<open>None\<close>, a bool, a number, a str,
  a list or a dict with str keys (in insertion order). Numbers are modelled as integers
  (floats play no part in any check other than as one more non-str, non-list, non-dict
  value). A str is a list of code points below 256.
\<close>

datatype json =
    JNull
  | JBool bool
  | JNum int
  | JStr string
  | JList "json list"
  | JDict "(string \<times> json) list"

datatype exn =
    TypeError
  | KeyError
  | IndexError
  | AttributeError
  | UnboundLocalError
  | ReError
  | Exception string json

text \<open>Python's \<^verbatim>\<open>==\<close> on loaded JSON: \<^verbatim>\<open>True == 1\<close>, lists compare element by element,
  dicts compare as mappings whatever the insertion order.\<close>

fun py_eq :: "json \<Rightarrow> json \<Rightarrow> bool" where
  "py_eq JNull y = (case y of JNull \<Rightarrow> True | _ \<Rightarrow> False)"
| "py_eq (JBool a) y =
     (case y of JBool b \<Rightarrow> a = b | JNum n \<Rightarrow> (if a then 1 else 0) = n | _ \<Rightarrow> False)"
| "py_eq (JNum m) y =
     (case y of JNum n \<Rightarrow> m = n | JBool b \<Rightarrow> m = (if b then 1 else 0) | _ \<Rightarrow> False)"
| "py_eq (JStr s) y = (case y of JStr t \<Rightarrow> s = t | _ \<Rightarrow> False)"
| "py_eq (JList xs) y =
     (case y of JList ys \<Rightarrow> list_all2 py_eq xs ys | _ \<Rightarrow> False)"
| "py_eq (JDict xs) y =
     (case y of
        JDict ys \<Rightarrow>
          length xs = length ys \<and>
          list_all (\<lambda>kv. case map_of ys (fst kv) of
                            None \<Rightarrow> False
                          | Some w \<Rightarrow> py_eq (snd kv) w) xs
      | _ \<Rightarrow> False)"

definition py_ne :: "json \<Rightarrow> json \<Rightarrow> bool" where
  "py_ne x y = (\<not> py_eq x y)"

text \<open>Lists and dicts are unhashable: using one as a dict key or set member raises.\<close>

fun hashable :: "json \<Rightarrow> bool" where
  "hashable (JList _) = False"
| "hashable (JDict _) = False"
| "hashable _ = True"

fun startswith :: "string \<Rightarrow> string \<Rightarrow> bool" where
  "startswith s [] = True"
| "startswith [] (c # cs) = False"
| "startswith (x # xs) (c # cs) = (x = c \<and> startswith xs cs)"

fun substring :: "string \<Rightarrow> string \<Rightarrow> bool" where
  "substring k [] = (k = [])"
| "substring k (c # cs) = (startswith (c # cs) k \<or> substring k cs)"

text \<open>\<^verbatim>\<open>key in container\<close>.\<close>

fun py_contains :: "json \<Rightarrow> json \<Rightarrow> exn + bool" where
  "py_contains k (JDict kvs) =
     (if \<not> hashable k then Inl TypeError
      else case k of JStr s \<Rightarrow> Inr (s \<in> set (map fst kvs)) | _ \<Rightarrow> Inr False)"
| "py_contains k (JList xs) = Inr (list_ex (py_eq k) xs)"
| "py_contains k (JStr s) =
     (case k of JStr t \<Rightarrow> Inr (substring t s) | _ \<Rightarrow> Inl TypeError)"
| "py_contains k _ = Inl TypeError"

text \<open>\<^verbatim>\<open>xs[i]\<close> on a list or str: index \<open>-1\<close> is the last item, \<open>-len(xs)\<close> the first.\<close>

definition py_index :: "'a list \<Rightarrow> int \<Rightarrow> exn + 'a" where
  "py_index xs i =
     (if 0 \<le> i \<and> i < int (length xs) then Inr (xs ! nat i)
      else if i < 0 \<and> - int (length xs) \<le> i then Inr (xs ! nat (int (length xs) + i))
      else Inl IndexError)"

fun as_index :: "json \<Rightarrow> int option" where
  "as_index (JNum i) = Some i"
| "as_index (JBool b) = Some (if b then 1 else 0)"
| "as_index _ = None"

text \<open>\<^verbatim>\<open>container[key]\<close>.\<close>

fun py_getitem :: "json \<Rightarrow> json \<Rightarrow> exn + json" where
  "py_getitem (JDict kvs) k =
     (if \<not> hashable k then Inl TypeError
      else case k of
             JStr s \<Rightarrow> (case map_of kvs s of None \<Rightarrow> Inl KeyError | Some v \<Rightarrow> Inr v)
           | _ \<Rightarrow> Inl KeyError)"
| "py_getitem (JList xs) k =
     (case as_index k of None \<Rightarrow> Inl TypeError | Some i \<Rightarrow> py_index xs i)"
| "py_getitem (JStr s) k =
     (case as_index k of
        None \<Rightarrow> Inl TypeError
      | Some i \<Rightarrow> (case py_index s i of Inl e \<Rightarrow> Inl e | Inr c \<Rightarrow> Inr (JStr [c])))"
| "py_getitem _ k = Inl TypeError"

text \<open>\<^verbatim>\<open>for x in value\<close>: the items the loop visits, or the TypeError of a non-iterable.\<close>

fun py_iter :: "json \<Rightarrow> exn + json list" where
  "py_iter (JDict kvs) = Inr (map (\<lambda>kv. JStr (fst kv)) kvs)"
| "py_iter (JList xs) = Inr xs"
| "py_iter (JStr s) = Inr (map (\<lambda>c. JStr [c]) s)"
| "py_iter _ = Inl TypeError"

text \<open>\<^verbatim>\<open>d[key] = value\<close> on a dict kept as an association list in insertion order.\<close>

fun dict_set :: "(json \<times> 'v) list \<Rightarrow> json \<Rightarrow> 'v \<Rightarrow> (json \<times> 'v) list" where
  "dict_set [] k v = [(k, v)]"
| "dict_set ((k', v') # kvs) k v =
     (if py_eq k' k then (k', v) # kvs else (k', v') # dict_set kvs k v)"

fun dict_get :: "(json \<times> 'v) list \<Rightarrow> json \<Rightarrow> 'v option" where
  "dict_get [] k = None"
| "dict_get ((k', v') # kvs) k = (if py_eq k' k then Some v' else dict_get kvs k)"

text \<open>\<^verbatim>\<open>sep.join(items)\<close>.\<close>

fun join :: "string \<Rightarrow> string list \<Rightarrow> string" where
  "join sep [] = []"
| "join sep [x] = x"
| "join sep (x # y # ys) = x @ sep @ join sep (y # ys)"

section \<open>Regular expressions\<close>

text \<open>
  The patterns the code hands to \<^verbatim>\<open>re\<close>, as syntax trees. Only whether a match exists
  is ever used, so groups carry no information. \<^verbatim>\<open>.\<close> is any character but a newline;
  \<^verbatim>\<open>$\<close> holds at the end of the string and just before a newline that ends it;
  \<^verbatim>\<open>\d\<close> and \<^verbatim>\<open>\w\<close> are Python 3's classes for str patterns, on code points below 256.
\<close>

datatype regex =
    Lit char
  | Dot
  | Digit
  | Word
  | Chars "(char \<times> char) list"
  | Bol
  | Eol
  | Seq regex regex
  | Alt regex regex
  | Star regex
  | Plus regex
  | Times nat regex

definition newline :: char where
  "newline = CHR 0x0A"

definition in_ranges :: "(nat \<times> nat) list \<Rightarrow> nat \<Rightarrow> bool" where
  "in_ranges rs n = list_ex (\<lambda>r. fst r \<le> n \<and> n \<le> snd r) rs"

definition is_digit :: "char \<Rightarrow> bool" where
  "is_digit c = in_ranges [(48, 57)] (of_char c)"

definition is_word :: "char \<Rightarrow> bool" where
  "is_word c =
     in_ranges [(48, 57), (65, 90), (95, 95), (97, 122), (170, 170), (178, 179),
                (181, 181), (185, 186), (188, 190), (192, 214), (216, 246), (248, 255)]
       (of_char c)"

definition in_class :: "(char \<times> char) list \<Rightarrow> char \<Rightarrow> bool" where
  "in_class rs c = in_ranges (map (\<lambda>r. (of_char (fst r), of_char (snd r))) rs) (of_char c)"

text \<open>A matcher position: the number of characters consumed and the rest of the string.\<close>

type_synonym pos = "nat \<times> string"

fun step_char :: "(char \<Rightarrow> bool) \<Rightarrow> pos \<Rightarrow> pos list" where
  "step_char p (i, []) = []"
| "step_char p (i, c # cs) = (if p c then [(Suc i, cs)] else [])"

text \<open>Zero or more rounds of \<open>f\<close>; a round that consumes nothing reaches nothing new,
  so the length of the rest bounds the number of rounds.\<close>

fun star_ends :: "(pos \<Rightarrow> pos list) \<Rightarrow> nat \<Rightarrow> pos \<Rightarrow> pos list" where
  "star_ends f 0 st = [st]"
| "star_ends f (Suc k) st =
     st # concat (map (star_ends f k)
                    (filter (\<lambda>st'. length (snd st') < length (snd st)) (f st)))"

fun times_ends :: "(pos \<Rightarrow> pos list) \<Rightarrow> nat \<Rightarrow> pos \<Rightarrow> pos list" where
  "times_ends f 0 st = [st]"
| "times_ends f (Suc k) st = concat (map (times_ends f k) (f st))"

text \<open>Every position at which a match of the pattern that starts at \<open>st\<close> can end.\<close>

primrec ends :: "regex \<Rightarrow> pos \<Rightarrow> pos list" where
  "ends (Lit c) = step_char (\<lambda>x. x = c)"
| "ends Dot = step_char (\<lambda>x. x \<noteq> newline)"
| "ends Digit = step_char is_digit"
| "ends Word = step_char is_word"
| "ends (Chars rs) = step_char (in_class rs)"
| "ends Bol = (\<lambda>st. if fst st = 0 then [st] else [])"
| "ends Eol = (\<lambda>st. if snd st = [] \<or> snd st = [newline] then [st] else [])"
| "ends (Seq a b) = (\<lambda>st. concat (map (ends b) (ends a st)))"
| "ends (Alt a b) = (\<lambda>st. ends a st @ ends b st)"
| "ends (Star a) = (\<lambda>st. star_ends (ends a) (length (snd st)) st)"
| "ends (Plus a) =
     (\<lambda>st. concat (map (\<lambda>st'. star_ends (ends a) (length (snd st')) st') (ends a st)))"
| "ends (Times n a) = times_ends (ends a) n"

text \<open>\<^verbatim>\<open>re.match(pattern, s) is not None\<close> and \<^verbatim>\<open>re.search(pattern, s) is not None\<close>.\<close>

definition re_match :: "regex \<Rightarrow> string \<Rightarrow> bool" where
  "re_match r s = (ends r (0, s) \<noteq> [])"

fun search_from :: "regex \<Rightarrow> nat \<Rightarrow> string \<Rightarrow> bool" where
  "search_from r i [] = (ends r (i, []) \<noteq> [])"
| "search_from r i (c # cs) = (ends r (i, c # cs) \<noteq> [] \<or> search_from r (Suc i) cs)"

definition re_search :: "regex \<Rightarrow> string \<Rightarrow> bool" where
  "re_search r s = search_from r 0 s"

fun seqs :: "regex list \<Rightarrow> regex" where
  "seqs [] = Times 0 Dot"
| "seqs [r] = r"
| "seqs (r # rs) = Seq r (seqs rs)"

text \<open>The characters that are not literal in a pattern.\<close>

definition re_special :: "char \<Rightarrow> bool" where
  "re_special c = (c \<in> set ''.^$*+?{}[]|()'' \<or> c = CHR 0x5C)"

section \<open>The validator's state\<close>

datatype severity = Error | Warning

text \<open>A call of the log: the severity, the code and the keyword arguments in order.\<close>

type_synonym event = "severity \<times> string \<times> (string \<times> json) list"

text \<open>
  The fields of \<^verbatim>\<open>InventoryValidator\<close>. \<open>log\<close> holds the calls made to \<^verbatim>\<open>self.log\<close> so far
  (a log object that takes every call); \<open>location\<close> is \<^verbatim>\<open>self.where\<close>; \<^verbatim>\<open>None\<close> is \<open>JNull\<close>.
\<close>

record validator =
  log :: "event list"
  location :: string
  inventory :: json
  digest_algorithm :: json
  content_directory :: string
  head :: json
  all_versions :: "string list"
  manifest_files :: "(json \<times> string) list option"
  lax_digests :: bool

text \<open>\<^verbatim>\<open>__init__\<close>.\<close>

definition init :: "event list \<Rightarrow> string \<Rightarrow> bool \<Rightarrow> validator" where
  "init lg wh lax =
     \<lparr> log = lg, location = wh, inventory = JNull, digest_algorithm = JStr ''sha512'',
       content_directory = ''content'', head = JNull, all_versions = [],
       manifest_files = None, lax_digests = lax \<rparr>"

text \<open>A method body: it may raise, and it leaves a state behind either way.\<close>

type_synonym 'a vm = "validator \<Rightarrow> (exn + 'a) \<times> validator"

definition returnE :: "'a \<Rightarrow> 'a vm" where
  "returnE x = (\<lambda>s. (Inr x, s))"

definition raise :: "exn \<Rightarrow> 'a vm" where
  "raise e = (\<lambda>s. (Inl e, s))"

definition bindE :: "'a vm \<Rightarrow> ('a \<Rightarrow> 'b vm) \<Rightarrow> 'b vm" where
  "bindE m f = (\<lambda>s. case m s of (Inl e, s') \<Rightarrow> (Inl e, s') | (Inr x, s') \<Rightarrow> f x s')"

definition thenE :: "unit vm \<Rightarrow> 'b vm \<Rightarrow> 'b vm" where
  "thenE m n = bindE m (\<lambda>_. n)"

definition lift :: "exn + 'a \<Rightarrow> 'a vm" where
  "lift r = (\<lambda>s. (r, s))"

definition gets :: "(validator \<Rightarrow> 'a) \<Rightarrow> 'a vm" where
  "gets f = (\<lambda>s. (Inr (f s), s))"

definition modify :: "(validator \<Rightarrow> validator) \<Rightarrow> unit vm" where
  "modify f = (\<lambda>s. (Inr (), f s))"

definition whenE :: "bool \<Rightarrow> unit vm \<Rightarrow> unit vm" where
  "whenE b m = (if b then m else returnE ())"

text \<open>A \<^verbatim>\<open>for\<close> loop that carries the local variable the body updates.\<close>

primrec forE :: "'a list \<Rightarrow> ('a \<Rightarrow> 'b \<Rightarrow> 'b vm) \<Rightarrow> 'b \<Rightarrow> 'b vm" where
  "forE [] body acc = returnE acc"
| "forE (x # xs) body acc = bindE (body x acc) (forE xs body)"

text \<open>\<^verbatim>\<open>self.error(code, **args)\<close> and \<^verbatim>\<open>self.warn(code, **args)\<close>.\<close>

definition error :: "string \<Rightarrow> (string \<times> json) list \<Rightarrow> unit vm" where
  "error code args =
     modify (\<lambda>s. s\<lparr>log := log s @ [(Error, code, (''where'', JStr (location s)) # args)]\<rparr>)"

definition warn :: "string \<Rightarrow> (string \<times> json) list \<Rightarrow> unit vm" where
  "warn code args =
     modify (\<lambda>s. s\<lparr>log := log s @ [(Warning, code, (''where'', JStr (location s)) # args)]\<rparr>)"

text \<open>The same for code that raises and has no state.\<close>

definition bindS :: "exn + 'a \<Rightarrow> ('a \<Rightarrow> exn + 'b) \<Rightarrow> exn + 'b" where
  "bindS r f = (case r of Inl e \<Rightarrow> Inl e | Inr x \<Rightarrow> f x)"

primrec forS :: "'a list \<Rightarrow> ('a \<Rightarrow> 'b \<Rightarrow> exn + 'b) \<Rightarrow> 'b \<Rightarrow> exn + 'b" where
  "forS [] body acc = Inr acc"
| "forS (x # xs) body acc = bindS (body x acc) (forS xs body)"

section \<open>Digests and content paths\<close>

definition sha512_regex :: regex where
  "sha512_regex =
     Seq Bol (Seq (Times 128 (Chars [(CHR ''0'', CHR ''9''), (CHR ''a'', CHR ''z'')])) Eol)"

definition sha256_regex :: regex where
  "sha256_regex =
     Seq Bol (Seq (Times 64 (Chars [(CHR ''0'', CHR ''9''), (CHR ''a'', CHR ''z'')])) Eol)"

definition lax_regex :: regex where
  "lax_regex = Seq (Star Dot) Eol"

text \<open>\<^verbatim>\<open>digest_regex\<close>; the exception carries its format string and the value formatted
  into it.\<close>

definition digest_regex :: "regex vm" where
  "digest_regex =
     (\<lambda>s. if py_eq (digest_algorithm s) (JStr ''sha512'') then (Inr sha512_regex, s)
          else if py_eq (digest_algorithm s) (JStr ''sha256'') then (Inr sha256_regex, s)
          else if lax_digests s then (Inr lax_regex, s)
          else (Inl (Exception ''Bad digest algorithm %s'' (digest_algorithm s)), s))"

text \<open>
  \<^verbatim>\<open>is_valid_content_path\<close> splices the content directory into its pattern unescaped. A
  directory name of literal characters gives the pattern below; for any other name
  the pattern is what Python's compiler makes of the text, the parameter \<open>re_compile\<close>
  (\<open>None\<close> when it raises \<^verbatim>\<open>re.error\<close>).
\<close>

definition content_path_regex :: "(string \<Rightarrow> regex option) \<Rightarrow> string \<Rightarrow> regex option" where
  "content_path_regex re_compile cd =
     (if list_ex re_special cd
      then re_compile (''^v'' @ [CHR 0x5C] @ ''d+/'' @ cd @ ''/'')
      else Some (seqs ([Bol, Lit (CHR ''v''), Plus Digit, Lit (CHR ''/'')] @ map Lit cd
                       @ [Lit (CHR ''/'')])))"

definition is_valid_content_path :: "(string \<Rightarrow> regex option) \<Rightarrow> json \<Rightarrow> bool vm" where
  "is_valid_content_path re_compile path =
     (\<lambda>s. case content_path_regex re_compile (content_directory s) of
            None \<Rightarrow> (Inl ReError, s)
          | Some r \<Rightarrow> (case path of
                        JStr p \<Rightarrow> (Inr (re_match r p), s)
                      | _ \<Rightarrow> (Inl TypeError, s)))"

section \<open>Validation of one inventory\<close>

text \<open>\<^verbatim>\<open>(\w+):.+\<close>\<close>

definition id_regex :: regex where
  "id_regex = Seq (Plus Word) (Seq (Lit (CHR '':'')) (Plus Dot))"

text \<open>\<^verbatim>\<open>validate_manifest\<close>\<close>

definition validate_manifest ::
  "(string \<Rightarrow> regex option) \<Rightarrow> json \<Rightarrow> (json \<times> string) list vm" where
  "validate_manifest re_compile manifest =
     (case manifest of
        JDict kvs \<Rightarrow>
          forE (map fst kvs)
            (\<lambda>digest manifest_files.
               bindE digest_regex (\<lambda>r.
               if \<not> re_match r digest
               then thenE (error ''E304'' [(''digest'', JStr digest)]) (returnE manifest_files)
               else bindE (lift (py_getitem manifest (JStr digest))) (\<lambda>files.
                 case files of
                   JList fs \<Rightarrow>
                     forE fs
                       (\<lambda>file manifest_files.
                          if \<not> hashable file then raise TypeError
                          else bindE (is_valid_content_path re_compile file) (\<lambda>ok.
                               thenE (whenE (\<not> ok) (error ''E913'' [(''path'', file)]))
                                 (returnE (dict_set manifest_files file digest))))
                       manifest_files
                 | _ \<Rightarrow>
                     thenE (error ''E308'' [(''digest'', JStr digest)])
                       (returnE manifest_files))))
            []
      | _ \<Rightarrow> thenE (error ''E307'' []) (returnE []))"

text \<open>\<^verbatim>\<open>'v%d' % n\<close> and \<^verbatim>\<open>'v%0Wd' % n\<close>\<close>

datatype vformat = Unpadded | Padded nat

function decimal :: "nat \<Rightarrow> string" where
  "decimal n =
     (if n < 10 then [''0123456789'' ! n]
      else decimal (n div 10) @ [''0123456789'' ! (n mod 10)])"
  by pat_completeness auto
termination
  by (relation "measure id") auto

declare decimal.simps [simp del]

fun vfmt :: "vformat \<Rightarrow> nat \<Rightarrow> string" where
  "vfmt Unpadded n = ''v'' @ decimal n"
| "vfmt (Padded w) n =
     ''v'' @ replicate (w - length (decimal n)) (CHR ''0'') @ decimal n"

text \<open>The loop \<^verbatim>\<open>for n in range(2, max_version_num + 1)\<close> of \<^verbatim>\<open>validate_version_sequence\<close>,
  from \<open>n\<close> on, with the two ways out of it.\<close>

function seq_loop ::
  "vformat \<Rightarrow> nat \<Rightarrow> (string \<times> json) list \<Rightarrow> nat \<Rightarrow> string list \<Rightarrow> string list vm" where
  "seq_loop fmt max_version_num versions n vs =
     (if n \<le> max_version_num
      then (if vfmt fmt n \<in> set (map fst versions)
            then seq_loop fmt max_version_num versions (n + 1) (vs @ [vfmt fmt n])
            else thenE (whenE (length versions \<noteq> n - 1) (error ''E312'' []))
                   (returnE vs))
      else thenE (whenE (length versions > max_version_num) (error ''E312'' []))
             (returnE vs))"
  by pat_completeness auto
termination
  by (relation "measure (\<lambda>(fmt, mx, versions, n, acc). Suc mx - n)") auto

declare seq_loop.simps [simp del]

text \<open>\<^verbatim>\<open>validate_version_sequence\<close>\<close>

definition validate_version_sequence :: "json \<Rightarrow> string list vm" where
  "validate_version_sequence versions =
     (case versions of
        JDict kvs \<Rightarrow>
          if ''v1'' \<in> set (map fst kvs)
          then seq_loop Unpadded 999999 kvs 2 [''v1'']
          else (case find (\<lambda>n. vfmt (Padded n) 1 \<in> set (map fst kvs)) [2..<11] of
                  None \<Rightarrow> thenE (error ''E311'' []) (returnE [])
                | Some n \<Rightarrow>
                    thenE (warn ''W203'' [])
                      (seq_loop (Padded n) (10 ^ (n - 1) - 1) kvs 2 [vfmt (Padded n) 1]))
      | _ \<Rightarrow> thenE (error ''E310'' []) (returnE []))"

text \<open>\<^verbatim>\<open>validate_state_block\<close>\<close>

definition validate_state_block :: "json \<Rightarrow> string list vm" where
  "validate_state_block state =
     (case state of
        JDict kvs \<Rightarrow>
          bindE digest_regex (\<lambda>_.
          forE (map fst kvs)
            (\<lambda>digest digests.
               bindE digest_regex (\<lambda>r.
               if \<not> re_match r digest
               then thenE (error ''E305'' [(''digest'', JStr digest)]) (returnE digests)
               else bindE (lift (py_getitem state (JStr digest))) (\<lambda>files.
                    bindE (lift (py_iter files)) (\<lambda>_.
                    returnE (digests @ [digest])))))
            [])
      | _ \<Rightarrow> thenE (error ''E912'' []) (returnE []))"

text \<open>\<^verbatim>\<open>(Z|[+-]\d\d:\d\d)$\<close> and \<^verbatim>\<open>T\d\d:\d\d:\d\d\<close>\<close>

definition zone_regex :: regex where
  "zone_regex =
     Seq (Alt (Lit (CHR ''Z''))
            (seqs [Chars [(CHR ''+'', CHR ''+''), (CHR ''-'', CHR ''-'')],
                   Digit, Digit, Lit (CHR '':''), Digit, Digit]))
       Eol"

definition time_regex :: regex where
  "time_regex =
     seqs [Lit (CHR ''T''), Digit, Digit, Lit (CHR '':''), Digit, Digit,
           Lit (CHR '':''), Digit, Digit]"

text \<open>
  The checks \<^verbatim>\<open>validate_versions\<close> makes on one version. \<^verbatim>\<open>str_to_datetime\<close> is not
  among the sources: it is the parameter \<open>str_to_datetime\<close>, \<open>Inl msg\<close> when it raises
  \<^verbatim>\<open>ValueError(msg)\<close> and \<open>Inr ()\<close> when it returns.
\<close>

definition validate_created ::
  "(string \<Rightarrow> string + unit) \<Rightarrow> string \<Rightarrow> json \<Rightarrow> unit vm" where
  "validate_created str_to_datetime v version =
     bindE (lift (py_contains (JStr ''created'') version)) (\<lambda>present.
     if \<not> present then error ''E401'' [(''version'', JStr v)]
     else bindE (lift (py_getitem version (JStr ''created''))) (\<lambda>c.
       case c of
         JStr created \<Rightarrow>
           (case str_to_datetime created of
              Inl e \<Rightarrow> error ''E402'' [(''version'', JStr v), (''description'', JStr e)]
            | Inr _ \<Rightarrow>
                thenE (whenE (\<not> re_search zone_regex created)
                         (warn ''W208'' [(''version'', JStr v)]))
                  (whenE (\<not> re_search time_regex created)
                     (warn ''W209'' [(''version'', JStr v)])))
       | _ \<Rightarrow> error ''E401'' [(''version'', JStr v)]))"

definition validate_message :: "string \<Rightarrow> json \<Rightarrow> unit vm" where
  "validate_message v version =
     bindE (lift (py_contains (JStr ''message'') version)) (\<lambda>present.
     if \<not> present then warn ''W201'' [(''version'', JStr v)]
     else bindE (lift (py_getitem version (JStr ''message''))) (\<lambda>m.
       case m of
         JStr _ \<Rightarrow> returnE ()
       | _ \<Rightarrow> error ''E403'' [(''version'', JStr v)]))"

definition validate_user :: "string \<Rightarrow> json \<Rightarrow> unit vm" where
  "validate_user v version =
     bindE (lift (py_contains (JStr ''user'') version)) (\<lambda>present.
     if \<not> present then warn ''W202'' [(''version'', JStr v)]
     else bindE (lift (py_getitem version (JStr ''user''))) (\<lambda>user.
       case user of
         JDict kvs \<Rightarrow>
           thenE
             (whenE (case map_of kvs ''name'' of Some (JStr _) \<Rightarrow> False | _ \<Rightarrow> True)
                (error ''E405'' [(''version'', JStr v)]))
             (case map_of kvs ''address'' of
                None \<Rightarrow> warn ''W210'' [(''version'', JStr v)]
              | Some (JStr _) \<Rightarrow> returnE ()
              | Some _ \<Rightarrow> error ''E406'' [(''version'', JStr v)])
       | _ \<Rightarrow> error ''E404'' [(''version'', JStr v)]))"

text \<open>\<^verbatim>\<open>validate_versions\<close>\<close>

definition validate_versions ::
  "(string \<Rightarrow> string + unit) \<Rightarrow> json \<Rightarrow> string list \<Rightarrow> string list vm" where
  "validate_versions str_to_datetime versions vs =
     forE vs
       (\<lambda>v digests_used.
          bindE (lift (py_getitem versions (JStr v))) (\<lambda>version.
          thenE (validate_created str_to_datetime v version)
          (bindE
             (bindE (lift (py_contains (JStr ''state'') version)) (\<lambda>present.
              if present
              then bindE (lift (py_getitem version (JStr ''state''))) (\<lambda>state.
                   bindE (validate_state_block state) (\<lambda>ds.
                   returnE (digests_used @ ds)))
              else thenE (error ''E410'' [(''version'', JStr v)]) (returnE digests_used)))
             (\<lambda>digests_used.
                thenE (validate_message v version)
                (thenE (validate_user v version)
                (returnE digests_used))))))
       []"

text \<open>\<^verbatim>\<open>check_digests_present_and_used\<close>\<close>

definition check_digests_present_and_used :: "json \<Rightarrow> string list \<Rightarrow> unit vm" where
  "check_digests_present_and_used manifest digests_used =
     (case manifest of
        JDict kvs \<Rightarrow>
          whenE (set (map fst kvs) \<noteq> set digests_used)
            (let not_in_state = filter (\<lambda>d. d \<notin> set digests_used) (map fst kvs);
                 not_in_manifest = filter (\<lambda>d. d \<notin> set (map fst kvs)) digests_used
             in thenE
                  (whenE (length not_in_manifest > 0)
                     (error ''E913''
                        [(''description'',
                          JStr (''in state but not in manifest: ''
                                @ join '', '' not_in_manifest))]))
                  (whenE (length not_in_state > 0)
                     (error ''E302''
                        [(''description'',
                          JStr (''in manifest but not in state: ''
                                @ join '', '' not_in_state))])))
      | _ \<Rightarrow> raise AttributeError)"

text \<open>\<^verbatim>\<open>validate\<close>, one definition for each field it looks at, in its order.\<close>

definition validate_id :: "json \<Rightarrow> unit vm" where
  "validate_id doc =
     bindE (lift (py_contains (JStr ''id'') doc)) (\<lambda>present.
     if present
     then bindE (lift (py_getitem doc (JStr ''id''))) (\<lambda>iid.
       case iid of
         JStr i \<Rightarrow>
           if i = [] then error ''E101'' []
           else whenE (\<not> re_match id_regex i) (warn ''W207'' [(''id'', iid)])
       | _ \<Rightarrow> error ''E101'' [])
     else error ''E100'' [])"

definition validate_type :: "json \<Rightarrow> unit vm" where
  "validate_type doc =
     bindE (lift (py_contains (JStr ''type'') doc)) (\<lambda>present.
     if \<not> present then error ''E102'' []
     else bindE (lift (py_getitem doc (JStr ''type''))) (\<lambda>t.
       whenE (py_ne t (JStr ''https://ocfl.io/1.0/spec/#inventory'')) (error ''E103'' [])))"

definition validate_digest_algorithm :: "json \<Rightarrow> unit vm" where
  "validate_digest_algorithm doc =
     bindE (lift (py_contains (JStr ''digestAlgorithm'') doc)) (\<lambda>present.
     if \<not> present then error ''E104'' []
     else bindE (lift (py_getitem doc (JStr ''digestAlgorithm''))) (\<lambda>alg.
       if py_eq alg (JStr ''sha512'') then returnE ()
       else bindE (gets lax_digests) (\<lambda>lax.
         if lax then modify (\<lambda>s. s\<lparr>digest_algorithm := alg\<rparr>)
         else if py_eq alg (JStr ''sha256'')
         then thenE (warn ''W206'' []) (modify (\<lambda>s. s\<lparr>digest_algorithm := alg\<rparr>))
         else error ''E105'' [(''digest_algorithm'', alg)])))"

definition validate_content_directory :: "json \<Rightarrow> unit vm" where
  "validate_content_directory doc =
     bindE (lift (py_contains (JStr ''contentDirectory'') doc)) (\<lambda>present.
     whenE present
       (bindE (lift (py_getitem doc (JStr ''contentDirectory''))) (\<lambda>cd.
          case cd of
            JStr d \<Rightarrow>
              if CHR ''/'' \<in> set d \<or> d \<in> set [''.'', ''..''] then error ''E051'' []
              else modify (\<lambda>s. s\<lparr>content_directory := d\<rparr>)
          | _ \<Rightarrow> error ''E051'' [])))"

definition validate_manifest_field :: "(string \<Rightarrow> regex option) \<Rightarrow> json \<Rightarrow> unit vm" where
  "validate_manifest_field re_compile doc =
     bindE (lift (py_contains (JStr ''manifest'') doc)) (\<lambda>present.
     if \<not> present then error ''E107'' []
     else bindE (lift (py_getitem doc (JStr ''manifest''))) (\<lambda>manifest.
          bindE (validate_manifest re_compile manifest) (\<lambda>mf.
          modify (\<lambda>s. s\<lparr>manifest_files := Some mf\<rparr>))))"

text \<open>The result is the local variable \<^verbatim>\<open>digests_used\<close>, \<open>None\<close> while it is unbound.\<close>

definition validate_versions_field ::
  "(string \<Rightarrow> string + unit) \<Rightarrow> json \<Rightarrow> string list option vm" where
  "validate_versions_field str_to_datetime doc =
     bindE (lift (py_contains (JStr ''versions'') doc)) (\<lambda>present.
     if \<not> present then thenE (error ''E108'' []) (returnE None)
     else bindE (lift (py_getitem doc (JStr ''versions''))) (\<lambda>versions.
          bindE (validate_version_sequence versions) (\<lambda>vs.
          thenE (modify (\<lambda>s. s\<lparr>all_versions := vs\<rparr>))
          (bindE (lift (py_getitem doc (JStr ''versions''))) (\<lambda>versions.
           bindE (gets all_versions) (\<lambda>vs.
           bindE (validate_versions str_to_datetime versions vs) (\<lambda>digests_used.
           returnE (Some digests_used))))))))"

definition validate_head :: "json \<Rightarrow> unit vm" where
  "validate_head doc =
     bindE (lift (py_contains (JStr ''head'') doc)) (\<lambda>present.
     if present
     then bindE (gets all_versions) (\<lambda>vs.
          bindE (lift (py_index vs (- 1))) (\<lambda>h.
          thenE (modify (\<lambda>s. s\<lparr>head := JStr h\<rparr>))
          (bindE (lift (py_getitem doc (JStr ''head''))) (\<lambda>got.
           bindE (gets head) (\<lambda>expected.
           whenE (py_ne got expected)
             (error ''E914'' [(''got'', got), (''expected'', expected)]))))))
     else error ''E106'' [])"

definition validate_digests :: "json \<Rightarrow> string list option \<Rightarrow> unit vm" where
  "validate_digests doc digests_used =
     bindE (lift (py_contains (JStr ''manifest'') doc)) (\<lambda>has_manifest.
     bindE (if has_manifest then lift (py_contains (JStr ''versions'') doc)
            else returnE False) (\<lambda>both.
     whenE both
       (bindE (lift (py_getitem doc (JStr ''manifest''))) (\<lambda>manifest.
        case digests_used of
          None \<Rightarrow> raise UnboundLocalError
        | Some ds \<Rightarrow> check_digests_present_and_used manifest ds))))"

definition validate ::
  "(string \<Rightarrow> regex option) \<Rightarrow> (string \<Rightarrow> string + unit) \<Rightarrow> json \<Rightarrow> unit vm" where
  "validate re_compile str_to_datetime doc =
     thenE (modify (\<lambda>s. s\<lparr>inventory := doc\<rparr>))
     (thenE (validate_id doc)
     (thenE (validate_type doc)
     (thenE (validate_digest_algorithm doc)
     (thenE (validate_content_directory doc)
     (thenE (validate_manifest_field re_compile doc)
     (bindE (validate_versions_field str_to_datetime doc) (\<lambda>digests_used.
      thenE (validate_head doc)
        (validate_digests doc digests_used))))))))"

section \<open>Validation against a prior version\<close>

text \<open>\<^verbatim>\<open>get_file_map\<close>\<close>

definition get_file_map :: "json \<Rightarrow> string \<Rightarrow> exn + (json \<times> json) list" where
  "get_file_map doc version_dir =
     bindS (py_getitem doc (JStr ''versions'')) (\<lambda>versions.
     bindS (py_getitem versions (JStr version_dir)) (\<lambda>version.
     bindS (py_getitem version (JStr ''state'')) (\<lambda>state.
     bindS (py_getitem doc (JStr ''manifest'')) (\<lambda>manifest.
     bindS (py_iter state) (\<lambda>digests.
     forS digests
       (\<lambda>digest file_map.
          bindS (py_contains digest manifest) (\<lambda>present.
          if present
          then bindS (py_getitem state digest) (\<lambda>files.
               bindS (py_iter files) (\<lambda>fs.
               forS fs
                 (\<lambda>file file_map.
                    bindS (py_getitem manifest digest) (\<lambda>paths.
                    if hashable file then Inr (dict_set file_map file paths)
                    else Inl TypeError))
                 file_map))
          else Inr file_map))
       [])))))"

text \<open>\<^verbatim>\<open>d.keys()\<close> of a field that may hold \<^verbatim>\<open>None\<close>, and \<^verbatim>\<open>value.get(key)\<close>.\<close>

definition keys_of :: "(json \<times> 'v) list option \<Rightarrow> exn + json list" where
  "keys_of d = (case d of None \<Rightarrow> Inl AttributeError | Some kvs \<Rightarrow> Inr (map fst kvs))"

definition py_get :: "json \<Rightarrow> string \<Rightarrow> exn + json" where
  "py_get d k =
     (case d of
        JDict kvs \<Rightarrow> Inr (case map_of kvs k of None \<Rightarrow> JNull | Some v \<Rightarrow> v)
      | _ \<Rightarrow> Inl AttributeError)"

text \<open>Sets of hashable values: \<^verbatim>\<open>issubset\<close> and the equality of two key views.\<close>

definition keys_subset :: "json list \<Rightarrow> json list \<Rightarrow> bool" where
  "keys_subset xs ys = list_all (\<lambda>x. list_ex (py_eq x) ys) xs"

definition keys_equal :: "json list \<Rightarrow> json list \<Rightarrow> bool" where
  "keys_equal xs ys = (keys_subset xs ys \<and> keys_subset ys xs)"

text \<open>The body of the loop over \<^verbatim>\<open>prior.all_versions\<close>.\<close>

definition check_version_files :: "validator \<Rightarrow> string \<Rightarrow> unit vm" where
  "check_version_files prior version_dir =
     bindE (lift (get_file_map (inventory prior) version_dir)) (\<lambda>prior_map.
     bindE (gets inventory) (\<lambda>doc.
     bindE (lift (get_file_map doc version_dir)) (\<lambda>self_map.
     if \<not> keys_equal (map fst prior_map) (map fst self_map)
     then error ''E409'' [(''version_dir'', JStr version_dir), (''prior_head'', head prior)]
     else forE (map fst prior_map)
            (\<lambda>file _.
               case (dict_get prior_map file, dict_get self_map file) of
                 (Some p, Some q) \<Rightarrow>
                   whenE (py_ne p q)
                     (error ''E410'' [(''version_dir'', JStr version_dir),
                                      (''prior_head'', head prior), (''file'', file)])
               | _ \<Rightarrow> raise KeyError)
            ())))"

text \<open>The lines after the loop, where \<^verbatim>\<open>version_dir\<close> is what the loop left in it.\<close>

definition check_metadata :: "validator \<Rightarrow> string option \<Rightarrow> unit vm" where
  "check_metadata prior bound =
     (case bound of
        None \<Rightarrow> raise UnboundLocalError
      | Some version_dir \<Rightarrow>
          bindE (lift (bindS (py_getitem (inventory prior) (JStr ''versions''))
                         (\<lambda>versions. py_getitem versions (JStr version_dir))))
            (\<lambda>prior_version.
          bindE (gets inventory) (\<lambda>doc.
          bindE (lift (bindS (py_getitem doc (JStr ''versions''))
                         (\<lambda>versions. py_getitem versions (JStr version_dir))))
            (\<lambda>self_version.
          forE [''created'', ''message'', ''user'']
            (\<lambda>key _.
               bindE (lift (py_get prior_version key)) (\<lambda>p.
               bindE (lift (py_get self_version key)) (\<lambda>q.
               whenE (py_ne p q)
                 (warn ''W212'' [(''version_dir'', JStr version_dir),
                                 (''prior_head'', head prior), (''key'', JStr key)]))))
            ()))))"

text \<open>\<^verbatim>\<open>validate_as_prior_version\<close>, run on the current validator with the prior one as
  argument.\<close>

definition validate_as_prior_version :: "validator \<Rightarrow> unit vm" where
  "validate_as_prior_version prior =
     bindE (gets all_versions) (\<lambda>self_versions.
     if \<not> set (all_versions prior) \<subseteq> set self_versions
     then error ''E407'' [(''prior_head'', head prior)]
     else bindE (lift (keys_of (manifest_files prior))) (\<lambda>prior_files.
          bindE (gets manifest_files) (\<lambda>mf.
          bindE (lift (keys_of mf)) (\<lambda>self_files.
          if \<not> keys_subset prior_files self_files
          then error ''E408'' [(''prior_head'', head prior)]
          else bindE (forE (all_versions prior)
                        (\<lambda>version_dir _.
                           thenE (check_version_files prior version_dir)
                             (returnE (Some version_dir)))
                        None)
                 (check_metadata prior)))))"

section \<open>The validation logger\<close>

text \<open>
  An entry of the catalog \<^verbatim>\<open>data/validation-errors.json\<close>: its description (a template
  for each language, in the file's order) and its parameter names; either may be absent.
  The file is not among the sources, so the catalog is the parameter \<open>validation_codes\<close>.
  Two more parameters stand for Python itself: \<open>percent t ps\<close> is \<^verbatim>\<open>t % tuple(ps)\<close>
  (\<open>None\<close> when it raises TypeError), \<open>py_repr\<close> is \<^verbatim>\<open>repr\<close> on loaded JSON.
\<close>

record catalog_entry =
  description :: "(string \<times> string) list option"
  params :: "string list option"

record py_env =
  validation_codes :: "string \<Rightarrow> catalog_entry option"
  percent :: "string \<Rightarrow> string list \<Rightarrow> string option"
  py_repr :: "json \<Rightarrow> string"

record logger =
  warnings :: bool
  lang :: string
  codes :: "(string \<times> string) list"
  messages :: "string list"
  num_errors :: nat
  num_warnings :: nat

definition logger_init :: "bool \<Rightarrow> string \<Rightarrow> logger" where
  "logger_init w l =
     \<lparr> warnings = w, lang = l, codes = [], messages = [], num_errors = 0, num_warnings = 0 \<rparr>"

definition spec_url :: string where
  "spec_url = ''https://ocfl.io/draft/spec/''"

text \<open>\<^verbatim>\<open>str(value)\<close> and \<^verbatim>\<open>str(args)\<close> for the keyword arguments \<open>args\<close>.\<close>

definition py_str :: "py_env \<Rightarrow> json \<Rightarrow> string" where
  "py_str env v = (case v of JStr t \<Rightarrow> t | _ \<Rightarrow> py_repr env v)"

definition str_args :: "py_env \<Rightarrow> (string \<times> json) list \<Rightarrow> string" where
  "str_args env args =
     ''{'' @ join '', '' (map (\<lambda>kv. py_repr env (JStr (fst kv)) @ '': '' @ py_repr env (snd kv)) args)
     @ ''}''"

definition severity_name :: "severity \<Rightarrow> string" where
  "severity_name sev = (case sev of Error \<Rightarrow> ''error'' | Warning \<Rightarrow> ''warning'')"

text \<open>\<^verbatim>\<open>([EW](\d\d\d))\<close>; a match spans the first four characters, group 2 the last three
  of them.\<close>

definition code_regex :: regex where
  "code_regex =
     seqs [Chars [(CHR ''E'', CHR ''E''), (CHR ''W'', CHR ''W'')], Digit, Digit, Digit]"

definition int_of_digits :: "string \<Rightarrow> nat" where
  "int_of_digits ds = foldl (\<lambda>a c. 10 * a + (of_char c - 48)) 0 ds"

text \<open>The description chosen for the configured language.\<close>

definition lang_description :: "string \<Rightarrow> severity \<Rightarrow> (string \<times> string) list \<Rightarrow> string" where
  "lang_description l sev desc =
     (case map_of desc l of
        Some t \<Rightarrow> t
      | None \<Rightarrow>
          (case map_of desc ''en'' of
             Some t \<Rightarrow> t
           | None \<Rightarrow>
               (case sort (map fst desc) of
                  k # _ \<Rightarrow> (case map_of desc k of Some t \<Rightarrow> t | None \<Rightarrow> [])
                | [] \<Rightarrow> ''Unknown '' @ severity_name sev
                        @ '': %s - no description, params (%s)'')))"

text \<open>The message \<^verbatim>\<open>error_or_warning\<close> builds.\<close>

definition render :: "py_env \<Rightarrow> string \<Rightarrow> string \<Rightarrow> severity \<Rightarrow> (string \<times> json) list \<Rightarrow> string" where
  "render env l code sev args =
     (let message =
        (case validation_codes env code of
           None \<Rightarrow>
             ''Unknown '' @ severity_name sev @ '': '' @ code @ '' - params (''
             @ str_args env args @ '')''
         | Some entry \<Rightarrow>
             (case description entry of
                None \<Rightarrow>
                  ''Unknown '' @ severity_name sev @ '': '' @ code @ '' - params (''
                  @ str_args env args @ '')''
              | Some desc \<Rightarrow>
                  (let lang_desc = lang_description l sev desc;
                       lang_desc =
                         (case params entry of
                            None \<Rightarrow> lang_desc
                          | Some ps \<Rightarrow>
                              (case percent env lang_desc
                                      (map (\<lambda>p. case map_of args p of
                                                   Some v \<Rightarrow> py_str env v
                                                 | None \<Rightarrow> ''???'') ps) of
                                 Some t \<Rightarrow> t
                               | None \<Rightarrow> lang_desc @ str_args env args))
                   in ''['' @ code @ ''] '' @ lang_desc)))
      in if re_match code_regex code \<and> int_of_digits (take 3 (drop 1 code)) < 200
         then message @ '' (see '' @ spec_url @ ''#'' @ take 4 code @ '')''
         else message)"

text \<open>\<^verbatim>\<open>codes[code] = message\<close>\<close>

fun codes_set :: "(string \<times> string) list \<Rightarrow> string \<Rightarrow> string \<Rightarrow> (string \<times> string) list" where
  "codes_set [] k v = [(k, v)]"
| "codes_set ((k', v') # kvs) k v =
     (if k' = k then (k', v) # kvs else (k', v') # codes_set kvs k v)"

text \<open>\<^verbatim>\<open>error_or_warning\<close>, \<^verbatim>\<open>error\<close>, \<^verbatim>\<open>warn\<close> and \<^verbatim>\<open>__str__\<close> of \<^verbatim>\<open>ValidationLogger\<close>\<close>

definition error_or_warning ::
  "py_env \<Rightarrow> string \<Rightarrow> severity \<Rightarrow> (string \<times> json) list \<Rightarrow> logger \<Rightarrow> logger" where
  "error_or_warning env code sev args lg =
     (let message = render env (lang lg) code sev args;
          lg = lg\<lparr>codes := codes_set (codes lg) code message\<rparr>
      in if sev = Error \<or> warnings lg then lg\<lparr>messages := messages lg @ [message]\<rparr>
         else lg)"

definition logger_error :: "py_env \<Rightarrow> string \<Rightarrow> (string \<times> json) list \<Rightarrow> logger \<Rightarrow> logger" where
  "logger_error env code args lg =
     (let lg = error_or_warning env code Error args lg
      in lg\<lparr>num_errors := num_errors lg + 1\<rparr>)"

definition logger_warn :: "py_env \<Rightarrow> string \<Rightarrow> (string \<times> json) list \<Rightarrow> logger \<Rightarrow> logger" where
  "logger_warn env code args lg =
     (let lg = error_or_warning env code Warning args lg
      in lg\<lparr>num_warnings := num_warnings lg + 1\<rparr>)"

definition logger_str :: "logger \<Rightarrow> string" where
  "logger_str lg = concat (map (\<lambda>message. message @ [newline]) (sort (messages lg)))"

text \<open>A logger that takes the calls a validator made, in their order.\<close>

definition logger_call :: "py_env \<Rightarrow> logger \<Rightarrow> event \<Rightarrow> logger" where
  "logger_call env lg ev =
     (case ev of
        (Error, code, args) \<Rightarrow> logger_error env code args lg
      | (Warning, code, args) \<Rightarrow> logger_warn env code args lg)"

definition logger_calls :: "py_env \<Rightarrow> event list \<Rightarrow> logger \<Rightarrow> logger" where
  "logger_calls env evs lg = foldl (logger_call env) lg evs"

section \<open>What a run reports\<close>

text \<open>The calls of the log made between two states, and whether a code is among them.\<close>

definition new_events :: "validator \<Rightarrow> validator \<Rightarrow> event list" where
  "new_events s s' = drop (length (log s)) (log s')"

definition reported :: "severity \<Rightarrow> string \<Rightarrow> event list \<Rightarrow> bool" where
  "reported sev code evs = list_ex (\<lambda>ev. fst ev = sev \<and> fst (snd ev) = code) evs"

section \<open>Notions used in the proofs\<close>

text \<open>The one exception the validator raises itself, as opposed to those of Python's
  built-in operations.\<close>

fun is_exception :: "exn \<Rightarrow> bool" where
  "is_exception (Exception t j) = True"
| "is_exception _ = False"

definition builtin :: "exn + 'a \<Rightarrow> bool" where
  "builtin r = (case r of Inl e \<Rightarrow> \<not> is_exception e | Inr _ \<Rightarrow> True)"

text \<open>The states in which \<^verbatim>\<open>digest_regex\<close> finds a branch that returns.\<close>

definition digest_known :: "validator \<Rightarrow> bool" where
  "digest_known s =
     (py_eq (digest_algorithm s) (JStr ''sha512'') \<or> py_eq (digest_algorithm s) (JStr ''sha256'')
      \<or> lax_digests s)"

text \<open>
  \<open>ok I C X m\<close>: run from a state that satisfies \<open>I\<close>, the method body \<open>m\<close> ends in a state
  that satisfies \<open>I\<close>, the calls of the log it has made all carry codes of \<open>C\<close>, and an
  exception it raises satisfies \<open>X\<close>.
\<close>

definition ok :: "(validator \<Rightarrow> bool) \<Rightarrow> string set \<Rightarrow> (exn \<Rightarrow> bool) \<Rightarrow> 'a vm \<Rightarrow> bool" where
  "ok I C X m =
     (\<forall>s. I s \<longrightarrow>
        I (snd (m s))
        \<and> (\<exists>evs. log (snd (m s)) = log s @ evs \<and> list_all (\<lambda>ev. fst (snd ev) \<in> C) evs)
        \<and> (case fst (m s) of Inl e \<Rightarrow> X e | Inr _ \<Rightarrow> True))"

text \<open>Lax mode with an algorithm other than the two standard ones adopted.\<close>

definition lax_adopted :: "validator \<Rightarrow> bool" where
  "lax_adopted s =
     (lax_digests s \<and> \<not> py_eq (digest_algorithm s) (JStr ''sha512'')
      \<and> \<not> py_eq (digest_algorithm s) (JStr ''sha256''))"

text \<open>The message the logger renders for a call.\<close>

definition event_message :: "py_env \<Rightarrow> string \<Rightarrow> event \<Rightarrow> string" where
  "event_message env l ev = render env l (fst (snd ev)) (fst ev) (snd (snd ev))"

text \<open>A catalog with one entry, for E304, whose description takes no parameters; with it
  nothing is ever formatted or printed by Python.\<close>

definition example_env :: py_env where
  "example_env =
     \<lparr> validation_codes =
         (\<lambda>code. if code = ''E304''
                  then Some \<lparr> description = Some [(''en'', ''bad digest'')], params = None \<rparr>
                  else None),
       percent = (\<lambda>t ps. None),
       py_repr = (\<lambda>v. []) \<rparr>"

text \<open>An inventory of two versions with an empty manifest and empty states, given the
  messages of its versions; and the validator that has validated it.\<close>

definition version_entry :: "string \<Rightarrow> json" where
  "version_entry msg =
     JDict [(''created'', JStr ''2018-10-02T12:00:00Z''), (''message'', JStr msg),
            (''state'', JDict []),
            (''user'', JDict [(''name'', JStr ''A''), (''address'', JStr ''mailto:a@example.org'')])]"

definition history_doc :: "string \<Rightarrow> string \<Rightarrow> json" where
  "history_doc msg1 msg2 =
     JDict [(''id'', JStr ''info:x''), (''type'', JStr ''https://ocfl.io/1.0/spec/#inventory''),
            (''digestAlgorithm'', JStr ''sha512''), (''head'', JStr ''v2''),
            (''manifest'', JDict []),
            (''versions'', JDict [(''v1'', version_entry msg1), (''v2'', version_entry msg2)])]"

definition validated :: "string \<Rightarrow> json \<Rightarrow> validator" where
  "validated wh doc =
     \<lparr> log = [], location = wh, inventory = doc, digest_algorithm = JStr ''sha512'',
       content_directory = ''content'', head = JStr ''v2'', all_versions = [''v1'', ''v2''],
       manifest_files = Some [], lax_digests = False \<rparr>"

text \<open>The codes of the later checks, and \<^verbatim>\<open>validate\<close> cut after the digest algorithm,
  after the content directory and before the head.\<close>

definition version_codes :: "string set" where
  "version_codes = {''E401'', ''E402'', ''W208'', ''W209'', ''E305'', ''E912'', ''E410'',
                    ''W201'', ''E403'', ''W202'', ''E404'', ''E405'', ''E406'', ''W210''}"

definition after_content_directory ::
  "(string \<Rightarrow> regex option) \<Rightarrow> (string \<Rightarrow> string + unit) \<Rightarrow> json \<Rightarrow> unit vm" where
  "after_content_directory rc sd doc =
     thenE (validate_manifest_field rc doc)
     (bindE (validate_versions_field sd doc) (\<lambda>digests_used.
      thenE (validate_head doc)
        (validate_digests doc digests_used)))"

definition after_digest_algorithm ::
  "(string \<Rightarrow> regex option) \<Rightarrow> (string \<Rightarrow> string + unit) \<Rightarrow> json \<Rightarrow> unit vm" where
  "after_digest_algorithm rc sd doc =
     thenE (validate_content_directory doc) (after_content_directory rc sd doc)"

definition up_to_versions ::
  "(string \<Rightarrow> regex option) \<Rightarrow> (string \<Rightarrow> string + unit) \<Rightarrow> json \<Rightarrow> string list option vm" where
  "up_to_versions rc sd doc =
     thenE (modify (\<lambda>s. s\<lparr>inventory := doc\<rparr>))
     (thenE (validate_id doc)
     (thenE (validate_type doc)
     (thenE (validate_digest_algorithm doc)
     (thenE (validate_content_directory doc)
     (thenE (validate_manifest_field rc doc)
       (validate_versions_field sd doc))))))"

definition manifest_codes :: "string set" where
  "manifest_codes = {''E107'', ''E304'', ''E307'', ''E308'', ''E913''}"

definition sequence_codes :: "string set" where
  "sequence_codes = {''E108'', ''E310'', ''E311'', ''E312'', ''W203''}"

text \<open>Two states that differ in the log at most.\<close>

definition same_but_log :: "validator \<Rightarrow> validator \<Rightarrow> bool" where
  "same_but_log s x = (x\<lparr>log := []\<rparr> = s\<lparr>log := []\<rparr>)"



text \<open>The inventory of two versions again, without a head.\<close>

definition headless_doc :: json where
  "headless_doc =
     JDict [(''id'', JStr ''info:x''), (''type'', JStr ''https://ocfl.io/1.0/spec/#inventory''),
            (''digestAlgorithm'', JStr ''sha512''), (''manifest'', JDict []),
            (''versions'', JDict [(''v1'', version_entry ''first''),
                                  (''v2'', version_entry ''second'')])]"

text \<open>The body of the loop of \<^verbatim>\<open>validate_manifest\<close> over the digests; the call of the log
  that reports a digest; the calls that carry a given code; and the digests that hold a
  newline before their last character.\<close>

definition manifest_step ::
  "(string \<Rightarrow> regex option) \<Rightarrow> json \<Rightarrow> string \<Rightarrow> (json \<times> string) list
   \<Rightarrow> (json \<times> string) list vm" where
  "manifest_step re_compile manifest digest mf =
     bindE digest_regex (\<lambda>r.
     if \<not> re_match r digest
     then thenE (error ''E304'' [(''digest'', JStr digest)]) (returnE mf)
     else bindE (lift (py_getitem manifest (JStr digest))) (\<lambda>files.
       case files of
         JList fs \<Rightarrow>
           forE fs
             (\<lambda>file manifest_files.
                if \<not> hashable file then raise TypeError
                else bindE (is_valid_content_path re_compile file) (\<lambda>ok.
                     thenE (whenE (\<not> ok) (error ''E913'' [(''path'', file)]))
                       (returnE (dict_set manifest_files file digest))))
             mf
       | _ \<Rightarrow>
           thenE (error ''E308'' [(''digest'', JStr digest)])
             (returnE mf)))"

definition digest_error :: "string \<Rightarrow> string \<Rightarrow> event" where
  "digest_error wh d = (Error, ''E304'', [(''where'', JStr wh), (''digest'', JStr d)])"

definition with_code :: "string \<Rightarrow> event list \<Rightarrow> event list" where
  "with_code c evs = filter (\<lambda>ev. fst (snd ev) = c) evs"

definition inner_newline :: "string \<Rightarrow> bool" where
  "inner_newline d = (newline \<in> set (butlast d))"

section \<open>The version-sequence resolver on the documented examples\<close>

lemmas vm_defs = thenE_def bindE_def whenE_def returnE_def raise_def lift_def gets_def
  modify_def error_def warn_def

text \<open>A dict has as many items as keys.\<close>

lemma keys_length:
  assumes "distinct (map fst kvs)" and "set (map fst kvs) = S"
  shows "length kvs = card S"
  using distinct_card[OF assms(1)] assms(2) by simp

text \<open>The resolver looks at which keys the dict has and at how many it has, not at
  their order.\<close>

lemma seq3:
  assumes "distinct (map fst kvs)" and "set (map fst kvs) = {''v1'', ''v2'', ''v3''}"
  shows "validate_version_sequence (JDict kvs) s = (Inr [''v1'', ''v2'', ''v3''], s)"
proof -
  have l: "length kvs = 3" using keys_length[OF assms] by simp
  have k: "fst ` set kvs = {''v1'', ''v2'', ''v3''}" using assms(2) by simp
  show ?thesis
    by (simp add: validate_version_sequence_def seq_loop.simps decimal.simps vm_defs l k split del: if_split)
qed

lemma seq_padded:
  assumes "distinct (map fst kvs)" and "set (map fst kvs) = {''v01'', ''v02''}"
  shows "validate_version_sequence (JDict kvs) s
   = (Inr [''v01'', ''v02''],
      s\<lparr>log := log s @ [(Warning, ''W203'', [(''where'', JStr (location s))])]\<rparr>)"
proof -
  have l: "length kvs = 2" using keys_length[OF assms] by simp
  have k: "fst ` set kvs = {''v01'', ''v02''}" using assms(2) by simp
  show ?thesis
    by (simp add: validate_version_sequence_def seq_loop.simps decimal.simps vm_defs upt_rec l k split del: if_split)
qed

lemma seq_gap:
  assumes "distinct (map fst kvs)" and "set (map fst kvs) = {''v1'', ''v3''}"
  shows "validate_version_sequence (JDict kvs) s
   = (Inr [''v1''],
      s\<lparr>log := log s @ [(Error, ''E312'', [(''where'', JStr (location s))])]\<rparr>)"
proof -
  have l: "length kvs = 2" using keys_length[OF assms] by simp
  have k: "fst ` set kvs = {''v1'', ''v3''}" using assms(2) by simp
  show ?thesis
    by (simp add: validate_version_sequence_def seq_loop.simps decimal.simps vm_defs l k split del: if_split)
qed

lemma seq_extra:
  assumes "distinct (map fst kvs)" and "set (map fst kvs) = {''v1'', ''v2'', ''v99''}"
  shows "validate_version_sequence (JDict kvs) s
   = (Inr [''v1'', ''v2''],
      s\<lparr>log := log s @ [(Error, ''E312'', [(''where'', JStr (location s))])]\<rparr>)"
proof -
  have l: "length kvs = 3" using keys_length[OF assms] by simp
  have k: "fst ` set kvs = {''v1'', ''v2'', ''v99''}" using assms(2) by simp
  show ?thesis
    by (simp add: validate_version_sequence_def seq_loop.simps decimal.simps vm_defs l k split del: if_split)
qed

text \<open>
  C8. Whatever the order of its keys, whatever its values and whatever the validator's
  state, a versions dict with the keys v1, v2, v3 gives the sequence v1, v2, v3 and no call
  of the log (so no padding warning); one with the keys v01, v02 gives v01, v02 and the one
  warning W203; one with the keys v1, v3 gives v1 and the one error E312; one with the keys
  v1, v2, v99 gives v1, v2 and the one error E312.
\<close>

theorem version_sequence_of_key_sets:
  assumes "distinct (map fst kvs)"
  shows "(set (map fst kvs) = {''v1'', ''v2'', ''v3''} \<longrightarrow>
            validate_version_sequence (JDict kvs) s = (Inr [''v1'', ''v2'', ''v3''], s))
       \<and> (set (map fst kvs) = {''v01'', ''v02''} \<longrightarrow>
            validate_version_sequence (JDict kvs) s
            = (Inr [''v01'', ''v02''],
               s\<lparr>log := log s @ [(Warning, ''W203'', [(''where'', JStr (location s))])]\<rparr>))
       \<and> (set (map fst kvs) = {''v1'', ''v3''} \<longrightarrow>
            validate_version_sequence (JDict kvs) s
            = (Inr [''v1''],
               s\<lparr>log := log s @ [(Error, ''E312'', [(''where'', JStr (location s))])]\<rparr>))
       \<and> (set (map fst kvs) = {''v1'', ''v2'', ''v99''} \<longrightarrow>
            validate_version_sequence (JDict kvs) s
            = (Inr [''v1'', ''v2''],
               s\<lparr>log := log s @ [(Error, ''E312'', [(''where'', JStr (location s))])]\<rparr>))"
  by (intro conjI impI;
      (erule seq3[OF assms] | erule seq_padded[OF assms] | erule seq_gap[OF assms]
       | erule seq_extra[OF assms]))


text \<open>The theorem at four dicts whose keys are not in the order of the sequence.\<close>

theorem version_sequence_of_key_sets_witness:
  "distinct (map fst [(''v3'', JNull), (''v1'', JNull), (''v2'', JNull)])
   \<and> set (map fst [(''v3'', JNull), (''v1'', JNull), (''v2'', JNull)]) = {''v1'', ''v2'', ''v3''}
   \<and> validate_version_sequence (JDict [(''v3'', JNull), (''v1'', JNull), (''v2'', JNull)])
         (init [] ''x'' False)
       = (Inr [''v1'', ''v2'', ''v3''], init [] ''x'' False)
   \<and> distinct (map fst [(''v02'', JNull), (''v01'', JNull)])
   \<and> set (map fst [(''v02'', JNull), (''v01'', JNull)]) = {''v01'', ''v02''}
   \<and> validate_version_sequence (JDict [(''v02'', JNull), (''v01'', JNull)]) (init [] ''x'' False)
       = (Inr [''v01'', ''v02''],
          (init [] ''x'' False)\<lparr>log := [(Warning, ''W203'', [(''where'', JStr ''x'')])]\<rparr>)
   \<and> distinct (map fst [(''v3'', JNull), (''v1'', JNull)])
   \<and> set (map fst [(''v3'', JNull), (''v1'', JNull)]) = {''v1'', ''v3''}
   \<and> validate_version_sequence (JDict [(''v3'', JNull), (''v1'', JNull)]) (init [] ''x'' False)
       = (Inr [''v1''],
          (init [] ''x'' False)\<lparr>log := [(Error, ''E312'', [(''where'', JStr ''x'')])]\<rparr>)
   \<and> distinct (map fst [(''v99'', JNull), (''v2'', JNull), (''v1'', JNull)])
   \<and> set (map fst [(''v99'', JNull), (''v2'', JNull), (''v1'', JNull)])
       = {''v1'', ''v2'', ''v99''}
   \<and> validate_version_sequence (JDict [(''v99'', JNull), (''v2'', JNull), (''v1'', JNull)])
         (init [] ''x'' False)
       = (Inr [''v1'', ''v2''],
          (init [] ''x'' False)\<lparr>log := [(Error, ''E312'', [(''where'', JStr ''x'')])]\<rparr>)"
proof -
  have d1: "distinct (map fst [(''v3'', JNull), (''v1'', JNull), (''v2'', JNull)])"
    and e1: "set (map fst [(''v3'', JNull), (''v1'', JNull), (''v2'', JNull)])
             = {''v1'', ''v2'', ''v3''}"
    and d2: "distinct (map fst [(''v02'', JNull), (''v01'', JNull)])"
    and e2: "set (map fst [(''v02'', JNull), (''v01'', JNull)]) = {''v01'', ''v02''}"
    and d3: "distinct (map fst [(''v3'', JNull), (''v1'', JNull)])"
    and e3: "set (map fst [(''v3'', JNull), (''v1'', JNull)]) = {''v1'', ''v3''}"
    and d4: "distinct (map fst [(''v99'', JNull), (''v2'', JNull), (''v1'', JNull)])"
    and e4: "set (map fst [(''v99'', JNull), (''v2'', JNull), (''v1'', JNull)])
             = {''v1'', ''v2'', ''v99''}"
    by auto
  note t1 = version_sequence_of_key_sets[OF d1, of "init [] ''x'' False", THEN conjunct1, rule_format, OF e1]
  note t2 = version_sequence_of_key_sets[OF d2, of "init [] ''x'' False", THEN conjunct2, THEN conjunct1, rule_format, OF e2]
  note t3 = version_sequence_of_key_sets[OF d3, of "init [] ''x'' False", THEN conjunct2, THEN conjunct2, THEN conjunct1, rule_format, OF e3]
  note t4 = version_sequence_of_key_sets[OF d4, of "init [] ''x'' False", THEN conjunct2, THEN conjunct2, THEN conjunct2, rule_format, OF e4]
  have l: "log (init [] ''x'' False) = []" "location (init [] ''x'' False) = ''x''"
    by (simp_all add: init_def)
  show ?thesis
    using t1 t2 t3 t4 d1 e1 d2 e2 d3 e3 d4 e4 unfolding l append_Nil
    by (intro conjI)
qed

section \<open>A document with a head and no versions\<close>

lemmas validate_defs = validate_def validate_id_def validate_type_def
  validate_digest_algorithm_def validate_content_directory_def validate_manifest_field_def
  validate_versions_field_def validate_head_def validate_digests_def

text \<open>
  C1. The claim is that \<^verbatim>\<open>validate\<close> returns on every document. On the document
  \<^verbatim>\<open>{"head": "v1"}\<close> it reports the missing fields, E108 for the versions among them, and
  then raises IndexError at \<^verbatim>\<open>self.all_versions[-1]\<close>.
\<close>

theorem validate_raises_on_head_without_versions:
  "validate re_compile str_to_datetime (JDict [(''head'', JStr ''v1'')]) (init [] wh lax)
   = (Inl IndexError,
      (init [(Error, ''E100'', [(''where'', JStr wh)]),
             (Error, ''E102'', [(''where'', JStr wh)]),
             (Error, ''E104'', [(''where'', JStr wh)]),
             (Error, ''E107'', [(''where'', JStr wh)]),
             (Error, ''E108'', [(''where'', JStr wh)])] wh lax)
        \<lparr>inventory := JDict [(''head'', JStr ''v1'')]\<rparr>)"
  by (simp add: validate_defs vm_defs init_def py_index_def)

section \<open>The digest patterns\<close>

lemma times_ends_class:
  "times_ends (step_char p) n (i, s) =
     (if n \<le> length s \<and> list_all p (take n s) then [(i + n, drop n s)] else [])"
proof (induction n arbitrary: i s)
  case 0
  then show ?case by simp
next
  case (Suc n)
  show ?case
  proof (cases s)
    case Nil
    then show ?thesis by simp
  next
    case (Cons c cs)
    then show ?thesis using Suc by simp
  qed
qed

lemma ends_Seq_nonempty:
  "ends (Seq a b) st \<noteq> [] \<longleftrightarrow> (\<exists>st'\<in>set (ends a st). ends b st' \<noteq> [])"
  by auto

lemma ends_Eol_nonempty: "ends Eol st \<noteq> [] \<longleftrightarrow> snd st = [] \<or> snd st = [newline]"
  by simp

lemma ends_Bol_start: "ends Bol (0, s) = [(0, s)]"
  by simp

text \<open>What \<^verbatim>\<open>^[...]{n}$\<close> matches: \<open>n\<close> characters of the class, and then the end of the
  string or a newline that ends it.\<close>

lemma re_match_bol_times_eol:
  "re_match (Seq Bol (Seq (Times n (Chars rs)) Eol)) s =
     (n \<le> length s \<and> list_all (in_class rs) (take n s)
      \<and> (drop n s = [] \<or> drop n s = [newline]))"
proof -
  have "ends (Times n (Chars rs)) (0, s) =
          (if n \<le> length s \<and> list_all (in_class rs) (take n s) then [(n, drop n s)] else [])"
    using times_ends_class[of "in_class rs" n 0 s] by simp
  then show ?thesis
    unfolding re_match_def ends_Seq_nonempty ends_Bol_start ends_Eol_nonempty
    by (simp del: ends.simps)
qed

lemma digest_class_z: "in_class [(CHR ''0'', CHR ''9''), (CHR ''a'', CHR ''z'')] (CHR ''z'')"
  by (simp add: in_class_def in_ranges_def)

lemma sha512_regex_z: "re_match sha512_regex (replicate 128 (CHR ''z''))"
  unfolding sha512_regex_def re_match_bol_times_eol
  by (simp add: list_all_iff digest_class_z)

text \<open>
  C3. The claim is that with sha512 a digest is accepted only when it is 128 lowercase
  hexadecimal characters. The string of 128 times \<^verbatim>\<open>z\<close> is no hexadecimal number, and
  both the manifest and a state block accept it as a digest: no E304, no E305.
\<close>

theorem sha512_accepts_non_hex_digest:
  "validate_manifest re_compile (JDict [(replicate 128 (CHR ''z''), JList [])]) (init lg wh lax)
     = (Inr [], init lg wh lax)
   \<and> validate_state_block (JDict [(replicate 128 (CHR ''z''), JList [])]) (init lg wh lax)
     = (Inr [replicate 128 (CHR ''z'')], init lg wh lax)"
  using sha512_regex_z
  by (simp add: validate_manifest_def validate_state_block_def vm_defs digest_regex_def init_def)

lemma digest_class_a: "in_class [(CHR ''0'', CHR ''9''), (CHR ''a'', CHR ''z'')] (CHR ''a'')"
  by (simp add: in_class_def in_ranges_def)

lemma sha512_regex_a: "re_match sha512_regex (replicate 128 (CHR ''a''))"
  unfolding sha512_regex_def re_match_bol_times_eol
  by (simp add: list_all_iff digest_class_a)

text \<open>Another document on which a check does not return: a state that maps a well-formed
  digest to a number raises TypeError at \<^verbatim>\<open>for file in state[digest]\<close>.\<close>

lemma state_block_raises_on_number:
  "validate_state_block (JDict [(replicate 128 (CHR ''a''), JNum 5)]) (init lg wh lax)
   = (Inl TypeError, init lg wh lax)"
  using sha512_regex_a
  by (simp add: validate_state_block_def vm_defs digest_regex_def init_def)

section \<open>Rules for what a method body leaves behind\<close>

lemma py_contains_dict [simp]: "py_contains (JStr k) (JDict kvs) = Inr (map_of kvs k \<noteq> None)"
  by (simp add: map_of_eq_None_iff)

lemma builtin_simps [simp]:
  "builtin (Inr x)" "builtin (Inl TypeError)" "builtin (Inl KeyError)" "builtin (Inl IndexError)"
  "builtin (Inl AttributeError)" "builtin (Inl UnboundLocalError)" "builtin (Inl ReError)"
  by (simp_all add: builtin_def)

lemma builtin_py_contains [simp]: "builtin (py_contains k c)"
  by (cases c; cases k) (simp_all add: builtin_def split: json.splits)

lemma py_index_exn: "py_index xs i = Inl e \<Longrightarrow> e = IndexError"
  by (simp add: py_index_def split: if_splits)

lemma builtin_py_index [simp]: "builtin (py_index xs i)"
  by (auto simp: builtin_def dest: py_index_exn split: sum.splits)

lemma builtin_py_getitem [simp]: "builtin (py_getitem c k)"
  by (cases c)
     (auto simp: builtin_def dest: py_index_exn split: option.splits sum.splits json.splits)

lemma builtin_py_iter [simp]: "builtin (py_iter v)"
  by (cases v) simp_all

lemma builtin_bindS [simp]: "builtin r \<Longrightarrow> (\<And>x. builtin (f x)) \<Longrightarrow> builtin (bindS r f)"
  by (cases r) (simp_all add: bindS_def builtin_def)

lemma ok_returnE: "ok I C X (returnE x)"
  by (simp add: ok_def returnE_def)

lemma ok_raise: "X e \<Longrightarrow> ok I C X (raise e)"
  by (simp add: ok_def raise_def)

lemma ok_gets: "ok I C X (gets f)"
  by (simp add: ok_def gets_def)

lemma ok_modify: "(\<And>s. I s \<Longrightarrow> I (f s) \<and> log (f s) = log s) \<Longrightarrow> ok I C X (modify f)"
  by (simp add: ok_def modify_def)

lemma ok_error:
  "(\<And>s l. I s \<Longrightarrow> I (s\<lparr>log := l\<rparr>)) \<Longrightarrow> code \<in> C \<Longrightarrow> ok I C X (error code args)"
  by (simp add: ok_def error_def modify_def)

lemma ok_warn:
  "(\<And>s l. I s \<Longrightarrow> I (s\<lparr>log := l\<rparr>)) \<Longrightarrow> code \<in> C \<Longrightarrow> ok I C X (warn code args)"
  by (simp add: ok_def warn_def modify_def)

lemma ok_bindE:
  assumes "ok I C X m" and "\<And>x. ok I C X (f x)"
  shows "ok I C X (bindE m f)"
proof (unfold ok_def, intro allI impI)
  fix s assume I: "I s"
  obtain r s1 where ms: "m s = (r, s1)" by (cases "m s")
  from assms(1) I ms obtain evs1 where
    1: "I s1" "log s1 = log s @ evs1" "list_all (\<lambda>ev. fst (snd ev) \<in> C) evs1"
       "case r of Inl e \<Rightarrow> X e | Inr _ \<Rightarrow> True"
    by (fastforce simp: ok_def)
  show "I (snd (bindE m f s))
        \<and> (\<exists>evs. log (snd (bindE m f s)) = log s @ evs \<and> list_all (\<lambda>ev. fst (snd ev) \<in> C) evs)
        \<and> (case fst (bindE m f s) of Inl e \<Rightarrow> X e | Inr _ \<Rightarrow> True)"
  proof (cases r)
    case (Inl e)
    with ms 1 show ?thesis by (simp add: bindE_def)
  next
    case (Inr x)
    from assms(2)[of x] 1(1) obtain evs2 where
      2: "I (snd (f x s1))" "log (snd (f x s1)) = log s1 @ evs2"
         "list_all (\<lambda>ev. fst (snd ev) \<in> C) evs2"
         "case fst (f x s1) of Inl e \<Rightarrow> X e | Inr _ \<Rightarrow> True"
      by (fastforce simp: ok_def)
    with Inr ms 1 show ?thesis by (simp add: bindE_def)
  qed
qed

lemma ok_bind_lift:
  assumes "\<And>e. r = Inl e \<Longrightarrow> X e" and "\<And>x. r = Inr x \<Longrightarrow> ok I C X (f x)"
  shows "ok I C X (bindE (lift r) f)"
proof (cases r)
  case (Inl e)
  with assms(1) show ?thesis by (simp add: ok_def bindE_def lift_def)
next
  case (Inr x)
  with assms(2)[of x] show ?thesis by (simp add: ok_def bindE_def lift_def)
qed

lemma ok_bind_builtin:
  assumes "builtin r" and "\<And>e. \<not> is_exception e \<Longrightarrow> X e" and "\<And>x. r = Inr x \<Longrightarrow> ok I C X (f x)"
  shows "ok I C X (bindE (lift r) f)"
  using assms by (intro ok_bind_lift) (auto simp: builtin_def)

lemma ok_bind_gets:
  assumes "\<And>s. I s \<Longrightarrow> ok (\<lambda>s'. I s' \<and> g s' = g s) C X (f (g s))"
  shows "ok I C X (bindE (gets g) f)"
  using assms by (fastforce simp: ok_def bindE_def gets_def)

lemma ok_thenE: "ok I C X m \<Longrightarrow> ok I C X n \<Longrightarrow> ok I C X (thenE m n)"
  by (simp add: thenE_def ok_bindE)

lemma ok_whenE: "(b \<Longrightarrow> ok I C X m) \<Longrightarrow> ok I C X (whenE b m)"
  by (simp add: whenE_def ok_returnE)

lemma ok_if: "(b \<Longrightarrow> ok I C X m) \<Longrightarrow> (\<not> b \<Longrightarrow> ok I C X n) \<Longrightarrow> ok I C X (if b then m else n)"
  by simp

lemma ok_forE:
  "(\<And>x acc. x \<in> set xs \<Longrightarrow> ok I C X (body x acc)) \<Longrightarrow> ok I C X (forE xs body acc)"
  by (induction xs arbitrary: acc) (auto intro!: ok_returnE ok_bindE)

lemma ok_weaken:
  "ok I C X m \<Longrightarrow> C \<subseteq> C' \<Longrightarrow> (\<And>e. X e \<Longrightarrow> X' e) \<Longrightarrow> ok I C' X' m"
  unfolding ok_def list_all_iff by (fastforce split: sum.splits)

lemma ok_digest_regex:
  assumes "\<And>s t j. I s \<Longrightarrow> \<not> digest_known s \<Longrightarrow> X (Exception t j)"
  shows "ok I C X digest_regex"
  using assms by (auto simp: ok_def digest_regex_def digest_known_def)

lemma ok_is_valid_content_path:
  assumes "\<And>e. \<not> is_exception e \<Longrightarrow> X e"
  shows "ok I C X (is_valid_content_path rc path)"
  using assms by (auto simp: ok_def is_valid_content_path_def split: option.splits json.splits)





lemma ok_case_option:
  "(x = None \<Longrightarrow> ok I C X a) \<Longrightarrow> (\<And>y. x = Some y \<Longrightarrow> ok I C X (b y))
   \<Longrightarrow> ok I C X (case x of None \<Rightarrow> a | Some y \<Rightarrow> b y)"
  by (cases x) simp_all

lemma ok_case_sum:
  "(\<And>y. x = Inl y \<Longrightarrow> ok I C X (a y)) \<Longrightarrow> (\<And>y. x = Inr y \<Longrightarrow> ok I C X (b y))
   \<Longrightarrow> ok I C X (case x of Inl y \<Rightarrow> a y | Inr y \<Rightarrow> b y)"
  by (cases x) simp_all

lemma ok_case_json:
  "(x = JNull \<Longrightarrow> ok I C X a) \<Longrightarrow> (\<And>y. x = JBool y \<Longrightarrow> ok I C X (b y))
   \<Longrightarrow> (\<And>y. x = JNum y \<Longrightarrow> ok I C X (c y)) \<Longrightarrow> (\<And>y. x = JStr y \<Longrightarrow> ok I C X (d y))
   \<Longrightarrow> (\<And>y. x = JList y \<Longrightarrow> ok I C X (e y)) \<Longrightarrow> (\<And>y. x = JDict y \<Longrightarrow> ok I C X (f y))
   \<Longrightarrow> ok I C X (case x of JNull \<Rightarrow> a | JBool y \<Rightarrow> b y | JNum y \<Rightarrow> c y | JStr y \<Rightarrow> d y
                       | JList y \<Rightarrow> e y | JDict y \<Rightarrow> f y)"
  by (cases x) simp_all

lemmas ok_rules = ok_returnE ok_gets ok_bind_builtin ok_bindE ok_thenE ok_whenE ok_if ok_forE
  ok_error ok_warn ok_case_option ok_case_sum ok_case_json
  builtin_py_contains builtin_py_getitem builtin_py_iter builtin_py_index

lemma ok_not_reported:
  assumes "ok I C X m" and "I s" and "code \<notin> C"
  shows "\<not> reported sev code (new_events s (snd (m s)))"
proof -
  from assms(1,2) obtain evs where
    "log (snd (m s)) = log s @ evs" "list_all (\<lambda>ev. fst (snd ev) \<in> C) evs"
    unfolding ok_def by blast
  with assms(3) show ?thesis
    by (auto simp: reported_def new_events_def list_all_iff list_ex_iff)
qed

section \<open>Digests in lax mode\<close>

lemma star_reaches_end:
  "list_all p s \<Longrightarrow> length s \<le> k \<Longrightarrow> (i + length s, []) \<in> set (star_ends (step_char p) k (i, s))"
proof (induction s arbitrary: k i)
  case Nil
  then show ?case by (cases k) simp_all
next
  case (Cons c cs)
  then obtain k' where k: "k = Suc k'" by (cases k) auto
  with Cons.prems have "length cs \<le> k'" "list_all p cs" "p c" by auto
  from Cons.IH[OF this(2) this(1), of "Suc i"] k \<open>p c\<close> show ?case by simp
qed

lemma lax_regex_accepts:
  assumes "newline \<notin> set s"
  shows "re_match lax_regex s"
proof -
  have "list_all (\<lambda>x. x \<noteq> newline) s" using assms by (auto simp: list_all_iff)
  from star_reaches_end[OF this order_refl, of 0]
  have "(length s, []) \<in> set (star_ends (step_char (\<lambda>x. x \<noteq> newline)) (length s) (0, s))" by simp
  then show ?thesis
    unfolding re_match_def lax_regex_def ends_Seq_nonempty ends_Eol_nonempty
    by (intro bexI[where x="(length s, [])"]) simp_all
qed

lemma ok_bind_digest_regex_lax:
  assumes "\<And>s. I s \<Longrightarrow> lax_adopted s" and "ok I C X (f lax_regex)"
  shows "ok I C X (bindE digest_regex f)"
  unfolding ok_def
proof (intro allI impI)
  fix s assume "I s"
  with assms(1) have "digest_regex s = (Inr lax_regex, s)"
    by (simp add: digest_regex_def lax_adopted_def)
  then have "bindE digest_regex f s = f lax_regex s" by (simp add: bindE_def)
  with assms(2) \<open>I s\<close> show "I (snd (bindE digest_regex f s)) \<and>
       (\<exists>evs. log (snd (bindE digest_regex f s)) = log s @ evs \<and> list_all (\<lambda>ev. fst (snd ev) \<in> C) evs) \<and>
       (case fst (bindE digest_regex f s) of Inl e \<Rightarrow> X e | Inr x \<Rightarrow> True)"
    by (simp add: ok_def)
qed

lemma ok_validate_manifest_lax:
  assumes "list_all (\<lambda>kv. newline \<notin> set (fst kv)) kvs"
  shows "ok lax_adopted (- {''E304''}) (\<lambda>_. True) (validate_manifest rc (JDict kvs))"
proof -
  have vp: "ok lax_adopted (- {''E304''}) (\<lambda>_. True) (is_valid_content_path rc p)" for p
    by (rule ok_is_valid_content_path) simp
  have te: "ok lax_adopted (- {''E304''}) (\<lambda>_. True) (raise TypeError)"
    for dummy :: "(json \<times> string) list"
    by (rule ok_raise) simp
  have li: "\<And>s l. lax_adopted s \<Longrightarrow> lax_adopted (s\<lparr>log := l\<rparr>)"
    by (simp add: lax_adopted_def)
  have c: "''E308'' \<in> - {''E304''}" "''E913'' \<in> - {''E304''}" by simp_all
  have acc: "re_match lax_regex d" if "d \<in> set (map fst kvs)" for d
    using that assms by (auto simp: list_all_iff intro: lax_regex_accepts)
  show ?thesis
    unfolding validate_manifest_def json.case
    apply (rule ok_forE)
    apply (rule ok_bind_digest_regex_lax, assumption)
    apply (simp only: acc not_True_eq_False if_False)
    apply (intro ok_rules vp te c li | assumption | simp)+
    done
qed

section \<open>The logger's report\<close>

lemma logger_call_fields:
  "warnings (logger_call env lg ev) = warnings lg"
  "lang (logger_call env lg ev) = lang lg"
  "messages (logger_call env lg ev) =
     messages lg @ (if fst ev = Error \<or> warnings lg then [event_message env (lang lg) ev] else [])"
  "num_errors (logger_call env lg ev) = num_errors lg + (if fst ev = Error then 1 else 0)"
  "num_warnings (logger_call env lg ev) = num_warnings lg + (if fst ev = Warning then 1 else 0)"
  by (cases ev; cases "fst ev";
      simp add: logger_call_def logger_error_def logger_warn_def error_or_warning_def
        event_message_def Let_def)+

lemma logger_calls_fields:
  "warnings (logger_calls env evs lg) = warnings lg
   \<and> lang (logger_calls env evs lg) = lang lg
   \<and> messages (logger_calls env evs lg) =
       messages lg @ map (event_message env (lang lg))
                       (filter (\<lambda>ev. fst ev = Error \<or> warnings lg) evs)
   \<and> num_errors (logger_calls env evs lg) =
       num_errors lg + length (filter (\<lambda>ev. fst ev = Error) evs)
   \<and> num_warnings (logger_calls env evs lg) =
       num_warnings lg + length (filter (\<lambda>ev. fst ev = Warning) evs)"
proof (induction evs arbitrary: lg)
  case Nil
  then show ?case by (simp add: logger_calls_def)
next
  case (Cons ev evs)
  have "logger_calls env (ev # evs) lg = logger_calls env evs (logger_call env lg ev)"
    by (simp add: logger_calls_def)
  then show ?case
    using Cons.IH[of "logger_call env lg ev"] by (simp add: logger_call_fields)
qed

text \<open>
  C5, as the code has it. After any calls on a fresh logger, the report is the sorted
  list of the messages of all error calls and, when warnings are enabled, of all warning
  calls, one line for each call, a code that fired twice giving two lines, every line
  ended by a newline; the warning counter counts every warning call whether or not
  warnings are enabled, and the error counter every error call.
\<close>

theorem report_lists_every_recorded_message:
  "logger_str (logger_calls env evs (logger_init w l)) =
     concat (map (\<lambda>message. message @ [newline])
               (sort (map (event_message env l) (filter (\<lambda>ev. fst ev = Error \<or> w) evs))))
   \<and> num_warnings (logger_calls env evs (logger_init w l)) =
       length (filter (\<lambda>ev. fst ev = Warning) evs)
   \<and> num_errors (logger_calls env evs (logger_init w l)) =
       length (filter (\<lambda>ev. fst ev = Error) evs)"
  using logger_calls_fields[of env evs "logger_init w l"]
  by (simp add: logger_str_def logger_init_def)

text \<open>
  The claim as stated fails: E304 reported for two digests leaves one code with one
  message in \<open>codes\<close>, and the report has two lines.
\<close>

theorem report_repeats_a_code:
  "codes (logger_calls example_env
            [(Error, ''E304'', [(''where'', JStr ''x''), (''digest'', JStr ''abc'')]),
             (Error, ''E304'', [(''where'', JStr ''x''), (''digest'', JStr ''xyz'')])]
            (logger_init True ''en''))
     = [(''E304'', ''[E304] bad digest'')]
   \<and> logger_str (logger_calls example_env
            [(Error, ''E304'', [(''where'', JStr ''x''), (''digest'', JStr ''abc'')]),
             (Error, ''E304'', [(''where'', JStr ''x''), (''digest'', JStr ''xyz'')])]
            (logger_init True ''en''))
     = ''[E304] bad digest'' @ [newline] @ ''[E304] bad digest'' @ [newline]"
  by (simp add: logger_calls_def logger_call_def logger_error_def error_or_warning_def
        logger_str_def logger_init_def render_def lang_description_def example_env_def
        code_regex_def re_match_def int_of_digits_def is_digit_def in_class_def in_ranges_def
        Let_def)

section \<open>The metadata check against a prior version\<close>

lemma validate_history_doc:
  "validate re_compile (\<lambda>_. Inr ()) (history_doc m1 m2) (init [] wh False)
   = (Inr (), validated wh (history_doc m1 m2))"
  by (simp add: validate_defs validate_manifest_def validate_version_sequence_def
        validate_versions_def validate_state_block_def validate_created_def
        validate_message_def validate_user_def check_digests_present_and_used_def
        seq_loop.simps decimal.simps digest_regex_def
        history_doc_def version_entry_def validated_def
        id_regex_def zone_regex_def time_regex_def re_match_def re_search_def
        is_digit_def is_word_def in_class_def in_ranges_def newline_def
        vm_defs init_def py_index_def py_ne_def)

lemmas prior_version_defs = validate_as_prior_version_def check_version_files_def
  check_metadata_def get_file_map_def keys_of_def keys_subset_def keys_equal_def py_get_def
  bindS_def history_doc_def version_entry_def validated_def py_ne_def

text \<open>A change of the message of the last version of the prior inventory is noticed.\<close>

lemma prior_version_warns_for_last_version:
  "validate_as_prior_version (validated ''prior'' (history_doc ''first'' ''second''))
     (validated ''current'' (history_doc ''first'' ''rewritten''))
   = (Inr (),
      (validated ''current'' (history_doc ''first'' ''rewritten''))
        \<lparr>log := [(Warning, ''W212'',
                   [(''where'', JStr ''current''), (''version_dir'', JStr ''v2''),
                    (''prior_head'', JStr ''v2''), (''key'', JStr ''message'')])]\<rparr>)"
  by (simp add: prior_version_defs vm_defs)

text \<open>
  C2. The claim is that the metadata of every shared version is compared. Two
  inventories with the versions v1 and v2 that differ in the message of v1 both
  validate with no diagnostic at all, and \<^verbatim>\<open>validate_as_prior_version\<close> then returns
  without a single call of the log: no W212 for v1.
\<close>

theorem prior_version_ignores_metadata_of_v1:
  "validate re_compile (\<lambda>_. Inr ()) (history_doc ''first'' ''second'') (init [] ''prior'' False)
     = (Inr (), validated ''prior'' (history_doc ''first'' ''second''))
   \<and> validate re_compile (\<lambda>_. Inr ()) (history_doc ''rewritten'' ''second'')
       (init [] ''current'' False)
     = (Inr (), validated ''current'' (history_doc ''rewritten'' ''second''))
   \<and> validate_as_prior_version (validated ''prior'' (history_doc ''first'' ''second''))
       (validated ''current'' (history_doc ''rewritten'' ''second''))
     = (Inr (), validated ''current'' (history_doc ''rewritten'' ''second''))"
  by (simp add: validate_history_doc) (simp add: prior_version_defs vm_defs)

section \<open>What each check of an inventory leaves behind\<close>

lemma ok_validate_id:
  assumes "\<And>s l. I s \<Longrightarrow> I (s\<lparr>log := l\<rparr>)" and "{''E100'', ''E101'', ''W207''} \<subseteq> C"
    and "\<And>e. \<not> is_exception e \<Longrightarrow> X e"
  shows "ok I C X (validate_id doc)"
proof -
  have c: "''E100'' \<in> C" "''E101'' \<in> C" "''W207'' \<in> C" using assms(2) by auto
  show ?thesis
    unfolding validate_id_def by (intro ok_rules c assms(1,3) | assumption)+
qed

lemma ok_validate_type:
  assumes "\<And>s l. I s \<Longrightarrow> I (s\<lparr>log := l\<rparr>)" and "{''E102'', ''E103''} \<subseteq> C"
    and "\<And>e. \<not> is_exception e \<Longrightarrow> X e"
  shows "ok I C X (validate_type doc)"
proof -
  have c: "''E102'' \<in> C" "''E103'' \<in> C" using assms(2) by auto
  show ?thesis
    unfolding validate_type_def by (intro ok_rules c assms(1,3) | assumption)+
qed

lemma ok_validate_content_directory:
  assumes "\<And>s l. I s \<Longrightarrow> I (s\<lparr>log := l\<rparr>)" and "''E051'' \<in> C"
    and "\<And>e. \<not> is_exception e \<Longrightarrow> X e"
    and "\<And>s a. I s \<Longrightarrow> I (s\<lparr>content_directory := a\<rparr>)"
  shows "ok I C X (validate_content_directory doc)"
proof -
  have m: "ok I C X (modify (\<lambda>s. s\<lparr>content_directory := d\<rparr>))" for d
    by (rule ok_modify) (simp add: assms(4))
  show ?thesis
    unfolding validate_content_directory_def by (intro ok_rules m assms(1,2,3) | assumption)+
qed

lemma ok_validate_manifest:
  assumes "\<And>s l. I s \<Longrightarrow> I (s\<lparr>log := l\<rparr>)" and "{''E304'', ''E307'', ''E308'', ''E913''} \<subseteq> C"
    and "\<And>e. \<not> is_exception e \<Longrightarrow> X e"
    and "\<And>s t j. I s \<Longrightarrow> \<not> digest_known s \<Longrightarrow> X (Exception t j)"
  shows "ok I C X (validate_manifest rc manifest)"
proof -
  have c: "''E304'' \<in> C" "''E307'' \<in> C" "''E308'' \<in> C" "''E913'' \<in> C"
    using assms(2) by auto
  have dr: "ok I C X digest_regex"
    by (rule ok_digest_regex) (rule assms(4))
  have vp: "ok I C X (is_valid_content_path rc p)" for p
    by (rule ok_is_valid_content_path) (rule assms(3))
  have te: "ok I C X (raise TypeError)" for dummy :: "(json \<times> string) list"
    by (rule ok_raise) (simp add: assms(3))
  show ?thesis
    unfolding validate_manifest_def
    by (intro ok_rules dr vp te c assms(1,3) | assumption)+
qed

lemma ok_validate_manifest_field:
  assumes "\<And>s l. I s \<Longrightarrow> I (s\<lparr>log := l\<rparr>)"
    and "{''E107'', ''E304'', ''E307'', ''E308'', ''E913''} \<subseteq> C"
    and "\<And>e. \<not> is_exception e \<Longrightarrow> X e"
    and "\<And>s t j. I s \<Longrightarrow> \<not> digest_known s \<Longrightarrow> X (Exception t j)"
    and "\<And>s a. I s \<Longrightarrow> I (s\<lparr>manifest_files := a\<rparr>)"
  shows "ok I C X (validate_manifest_field rc doc)"
proof -
  have c: "''E107'' \<in> C" "{''E304'', ''E307'', ''E308'', ''E913''} \<subseteq> C"
    using assms(2) by auto
  have m: "ok I C X (modify (\<lambda>s. s\<lparr>manifest_files := a\<rparr>))" for a
    by (rule ok_modify) (simp add: assms(5))
  have vm: "ok I C X (validate_manifest rc x)" for x
    by (rule ok_validate_manifest) (fact assms(1) c(2) assms(3) assms(4))+
  show ?thesis
    unfolding validate_manifest_field_def by (intro ok_rules m vm c(1) assms(1,3) | assumption)+
qed

lemma ok_seq_loop:
  assumes "\<And>s l. I s \<Longrightarrow> I (s\<lparr>log := l\<rparr>)" and "''E312'' \<in> C"
  shows "ok I C X (seq_loop fmt mx kvs n vs)"
proof (induction fmt mx kvs n vs rule: seq_loop.induct)
  case (1 fmt mx kvs n vs)
  show ?case
    by (subst seq_loop.simps) (intro ok_rules assms 1 | assumption)+
qed

lemma ok_validate_version_sequence:
  assumes "\<And>s l. I s \<Longrightarrow> I (s\<lparr>log := l\<rparr>)" and "{''E310'', ''E311'', ''E312'', ''W203''} \<subseteq> C"
  shows "ok I C X (validate_version_sequence versions)"
proof -
  have c: "''E310'' \<in> C" "''E311'' \<in> C" "''E312'' \<in> C" "''W203'' \<in> C"
    using assms(2) by auto
  show ?thesis
    unfolding validate_version_sequence_def
    by (intro ok_rules ok_seq_loop c assms(1) | assumption)+
qed

lemma ok_validate_state_block:
  assumes "\<And>s l. I s \<Longrightarrow> I (s\<lparr>log := l\<rparr>)" and "{''E305'', ''E912''} \<subseteq> C"
    and "\<And>e. \<not> is_exception e \<Longrightarrow> X e"
    and "\<And>s t j. I s \<Longrightarrow> \<not> digest_known s \<Longrightarrow> X (Exception t j)"
  shows "ok I C X (validate_state_block state)"
proof -
  have c: "''E305'' \<in> C" "''E912'' \<in> C"
    using assms(2) by auto
  have dr: "ok I C X digest_regex"
    by (rule ok_digest_regex) (rule assms(4))
  show ?thesis
    unfolding validate_state_block_def
    by (intro ok_rules dr c assms(1,3) | assumption)+
qed

lemma ok_validate_created:
  assumes "\<And>s l. I s \<Longrightarrow> I (s\<lparr>log := l\<rparr>)" and "{''E401'', ''E402'', ''W208'', ''W209''} \<subseteq> C"
    and "\<And>e. \<not> is_exception e \<Longrightarrow> X e"
  shows "ok I C X (validate_created sd v version)"
proof -
  have c: "''E401'' \<in> C" "''E402'' \<in> C" "''W208'' \<in> C" "''W209'' \<in> C"
    using assms(2) by auto
  show ?thesis
    unfolding validate_created_def by (intro ok_rules c assms(1,3) | assumption)+
qed

lemma ok_validate_message:
  assumes "\<And>s l. I s \<Longrightarrow> I (s\<lparr>log := l\<rparr>)" and "{''W201'', ''E403''} \<subseteq> C"
    and "\<And>e. \<not> is_exception e \<Longrightarrow> X e"
  shows "ok I C X (validate_message v version)"
proof -
  have c: "''W201'' \<in> C" "''E403'' \<in> C" using assms(2) by auto
  show ?thesis
    unfolding validate_message_def by (intro ok_rules c assms(1,3) | assumption)+
qed

lemma ok_validate_user:
  assumes "\<And>s l. I s \<Longrightarrow> I (s\<lparr>log := l\<rparr>)"
    and "{''W202'', ''E404'', ''E405'', ''E406'', ''W210''} \<subseteq> C"
    and "\<And>e. \<not> is_exception e \<Longrightarrow> X e"
  shows "ok I C X (validate_user v version)"
proof -
  have c: "''W202'' \<in> C" "''E404'' \<in> C" "''E405'' \<in> C" "''E406'' \<in> C" "''W210'' \<in> C"
    using assms(2) by auto
  show ?thesis
    unfolding validate_user_def by (intro ok_rules c assms(1,3) | assumption)+
qed

lemma ok_lift: "(\<And>e. r = Inl e \<Longrightarrow> X e) \<Longrightarrow> ok I C X (lift r)"
  by (cases r) (simp_all add: ok_def lift_def)

lemma ok_lift_builtin:
  "builtin r \<Longrightarrow> (\<And>e. \<not> is_exception e \<Longrightarrow> X e) \<Longrightarrow> ok I C X (lift r)"
  by (rule ok_lift) (simp add: builtin_def)

lemma ok_validate_versions:
  assumes "\<And>s l. I s \<Longrightarrow> I (s\<lparr>log := l\<rparr>)" and "version_codes \<subseteq> C"
    and "\<And>e. \<not> is_exception e \<Longrightarrow> X e"
    and "\<And>s t j. I s \<Longrightarrow> \<not> digest_known s \<Longrightarrow> X (Exception t j)"
  shows "ok I C X (validate_versions sd versions vs)"
proof -
  have c: "''E410'' \<in> C" "{''E401'', ''E402'', ''W208'', ''W209''} \<subseteq> C"
    "{''E305'', ''E912''} \<subseteq> C" "{''W201'', ''E403''} \<subseteq> C"
    "{''W202'', ''E404'', ''E405'', ''E406'', ''W210''} \<subseteq> C"
    using assms(2) by (auto simp: version_codes_def)
  have cr: "ok I C X (validate_created sd v x)" for v x
    by (rule ok_validate_created) (fact assms(1) c(2) assms(3))+
  have sb: "ok I C X (validate_state_block x)" for x
    by (rule ok_validate_state_block) (fact assms(1) c(3) assms(3) assms(4))+
  have ms: "ok I C X (validate_message v x)" for v x
    by (rule ok_validate_message) (fact assms(1) c(4) assms(3))+
  have us: "ok I C X (validate_user v x)" for v x
    by (rule ok_validate_user) (fact assms(1) c(5) assms(3))+
  show ?thesis
    unfolding validate_versions_def
    by (intro ok_rules cr sb ms us c(1) assms(1,3) | assumption)+
qed

lemma ok_validate_versions_field:
  assumes "\<And>s l. I s \<Longrightarrow> I (s\<lparr>log := l\<rparr>)"
    and "{''E108'', ''E310'', ''E311'', ''E312'', ''W203''} \<union> version_codes \<subseteq> C"
    and "\<And>e. \<not> is_exception e \<Longrightarrow> X e"
    and "\<And>s t j. I s \<Longrightarrow> \<not> digest_known s \<Longrightarrow> X (Exception t j)"
    and "\<And>s a. I s \<Longrightarrow> I (s\<lparr>all_versions := a\<rparr>)"
  shows "ok I C X (validate_versions_field sd doc)"
proof -
  have c: "''E108'' \<in> C" "{''E310'', ''E311'', ''E312'', ''W203''} \<subseteq> C" "version_codes \<subseteq> C"
    using assms(2) by auto
  have m: "ok I C X (modify (\<lambda>s. s\<lparr>all_versions := a\<rparr>))" for a
    by (rule ok_modify) (simp add: assms(5))
  have vs: "ok I C X (validate_version_sequence x)" for x
    by (rule ok_validate_version_sequence) (fact assms(1) c(2))+
  have vv: "ok I C X (validate_versions sd x y)" for x y
    by (rule ok_validate_versions) (fact assms(1) c(3) assms(3) assms(4))+
  show ?thesis
    unfolding validate_versions_field_def
    by (intro ok_rules m vs vv c(1) assms(1,3) | assumption)+
qed

lemma ok_validate_head:
  assumes "\<And>s l. I s \<Longrightarrow> I (s\<lparr>log := l\<rparr>)" and "{''E914'', ''E106''} \<subseteq> C"
    and "\<And>e. \<not> is_exception e \<Longrightarrow> X e"
    and "\<And>s a. I s \<Longrightarrow> I (s\<lparr>head := a\<rparr>)"
  shows "ok I C X (validate_head doc)"
proof -
  have c: "''E914'' \<in> C" "''E106'' \<in> C" using assms(2) by auto
  have m: "ok I C X (modify (\<lambda>s. s\<lparr>head := a\<rparr>))" for a
    by (rule ok_modify) (simp add: assms(4))
  show ?thesis
    unfolding validate_head_def by (intro ok_rules m c assms(1,3) | assumption)+
qed

lemma ok_check_digests_present_and_used:
  assumes "\<And>s l. I s \<Longrightarrow> I (s\<lparr>log := l\<rparr>)" and "{''E913'', ''E302''} \<subseteq> C"
    and "\<And>e. \<not> is_exception e \<Longrightarrow> X e"
  shows "ok I C X (check_digests_present_and_used manifest ds)"
proof -
  have c: "''E913'' \<in> C" "''E302'' \<in> C" using assms(2) by auto
  have ae: "ok I C X (raise AttributeError)" for dummy :: unit
    by (rule ok_raise) (simp add: assms(3))
  show ?thesis
    unfolding check_digests_present_and_used_def Let_def
    by (intro ok_rules ae c assms(1,3) | assumption)+
qed

lemma ok_validate_digests:
  assumes "\<And>s l. I s \<Longrightarrow> I (s\<lparr>log := l\<rparr>)" and "{''E913'', ''E302''} \<subseteq> C"
    and "\<And>e. \<not> is_exception e \<Longrightarrow> X e"
  shows "ok I C X (validate_digests doc du)"
proof -
  have ue: "ok I C X (raise UnboundLocalError)" for dummy :: unit
    by (rule ok_raise) (simp add: assms(3))
  have li: "ok I C X (lift (py_contains k doc))" for k
    by (rule ok_lift_builtin) (simp_all add: assms(3))
  have cd: "ok I C X (check_digests_present_and_used x y)" for x y
    by (rule ok_check_digests_present_and_used) (fact assms)+
  show ?thesis
    unfolding validate_digests_def
    by (intro ok_rules ue li cd assms(1,3) | assumption)+
qed

lemma bindE_assoc: "bindE (bindE m f) g = bindE m (\<lambda>x. bindE (f x) g)"
  by (rule ext) (simp add: bindE_def split: prod.splits sum.splits)

lemma thenE_bindE_assoc: "bindE (thenE m n) g = thenE m (bindE n g)"
  by (simp add: thenE_def bindE_assoc)

lemma validate_after_digest:
  "validate rc sd doc =
     thenE (modify (\<lambda>s. s\<lparr>inventory := doc\<rparr>))
     (thenE (validate_id doc)
     (thenE (validate_type doc)
     (thenE (validate_digest_algorithm doc)
       (after_digest_algorithm rc sd doc))))"
  by (simp add: validate_def after_digest_algorithm_def after_content_directory_def)

lemma validate_up_to_versions:
  "validate rc sd doc =
     bindE (up_to_versions rc sd doc) (\<lambda>digests_used.
       thenE (validate_head doc) (validate_digests doc digests_used))"
  by (simp add: validate_def up_to_versions_def thenE_bindE_assoc)

lemma ok_after_content_directory:
  assumes "\<And>s l. I s \<Longrightarrow> I (s\<lparr>log := l\<rparr>)"
    and "manifest_codes \<union> sequence_codes \<union> version_codes \<union> {''E914'', ''E106'', ''E302''} \<subseteq> C"
    and "\<And>e. \<not> is_exception e \<Longrightarrow> X e"
    and "\<And>s t j. I s \<Longrightarrow> \<not> digest_known s \<Longrightarrow> X (Exception t j)"
    and "\<And>s a. I s \<Longrightarrow> I (s\<lparr>manifest_files := a\<rparr>)"
    and "\<And>s a. I s \<Longrightarrow> I (s\<lparr>all_versions := a\<rparr>)"
    and "\<And>s a. I s \<Longrightarrow> I (s\<lparr>head := a\<rparr>)"
  shows "ok I C X (after_content_directory rc sd doc)"
proof -
  have c: "{''E107'', ''E304'', ''E307'', ''E308'', ''E913''} \<subseteq> C"
    "{''E108'', ''E310'', ''E311'', ''E312'', ''W203''} \<union> version_codes \<subseteq> C"
    "{''E914'', ''E106''} \<subseteq> C" "{''E913'', ''E302''} \<subseteq> C"
    using assms(2) by (auto simp: manifest_codes_def sequence_codes_def)
  have mf: "ok I C X (validate_manifest_field rc doc)"
    by (rule ok_validate_manifest_field) (fact assms(1) c(1) assms(3) assms(4) assms(5))+
  have vf: "ok I C X (validate_versions_field sd doc)"
    by (rule ok_validate_versions_field) (fact assms(1) c(2) assms(3) assms(4) assms(6))+
  have hd: "ok I C X (validate_head doc)"
    by (rule ok_validate_head) (fact assms(1) c(3) assms(3) assms(7))+
  have dg: "ok I C X (validate_digests doc du)" for du
    by (rule ok_validate_digests) (fact assms(1) c(4) assms(3))+
  show ?thesis
    unfolding after_content_directory_def by (intro ok_thenE ok_bindE mf vf hd dg)
qed

lemma ok_after_digest_algorithm:
  assumes "\<And>s l. I s \<Longrightarrow> I (s\<lparr>log := l\<rparr>)"
    and "manifest_codes \<union> sequence_codes \<union> version_codes \<union> {''E914'', ''E106'', ''E302''} \<subseteq> C"
    and "\<And>e. \<not> is_exception e \<Longrightarrow> X e"
    and "\<And>s t j. I s \<Longrightarrow> \<not> digest_known s \<Longrightarrow> X (Exception t j)"
    and "\<And>s a. I s \<Longrightarrow> I (s\<lparr>manifest_files := a\<rparr>)"
    and "\<And>s a. I s \<Longrightarrow> I (s\<lparr>all_versions := a\<rparr>)"
    and "\<And>s a. I s \<Longrightarrow> I (s\<lparr>head := a\<rparr>)"
    and "\<And>s a. I s \<Longrightarrow> I (s\<lparr>content_directory := a\<rparr>)"
    and "''E051'' \<in> C"
  shows "ok I C X (after_digest_algorithm rc sd doc)"
proof -
  have cd: "ok I C X (validate_content_directory doc)"
    by (rule ok_validate_content_directory) (fact assms(1) assms(9) assms(3) assms(8))+
  have ac: "ok I C X (after_content_directory rc sd doc)"
    by (rule ok_after_content_directory)
       (fact assms(1) assms(2) assms(3) assms(4) assms(5) assms(6) assms(7))+
  show ?thesis
    unfolding after_digest_algorithm_def by (intro ok_thenE cd ac)
qed

lemma ok_validate_digest_algorithm:
  assumes "\<And>s l. I s \<Longrightarrow> I (s\<lparr>log := l\<rparr>)" and "{''E104'', ''E105'', ''W206''} \<subseteq> C"
    and "\<And>e. \<not> is_exception e \<Longrightarrow> X e"
    and "\<And>s a. I s \<Longrightarrow> I (s\<lparr>digest_algorithm := a\<rparr>)"
  shows "ok I C X (validate_digest_algorithm doc)"
proof -
  have c: "''E104'' \<in> C" "''E105'' \<in> C" "''W206'' \<in> C" using assms(2) by auto
  have m: "ok I C X (modify (\<lambda>s. s\<lparr>digest_algorithm := a\<rparr>))" for a
    by (rule ok_modify) (simp add: assms(4))
  show ?thesis
    unfolding validate_digest_algorithm_def by (intro ok_rules m c assms(1,3) | assumption)+
qed

lemma builtinD: "builtin r \<Longrightarrow> r = Inl e \<Longrightarrow> \<not> is_exception e"
  by (simp add: builtin_def)

text \<open>The digest algorithm is only ever replaced by sha256 or under lax mode.\<close>

lemma ok_validate_digest_algorithm_known:
  "ok digest_known UNIV (\<lambda>e. \<not> is_exception e) (validate_digest_algorithm doc)"
  unfolding ok_def validate_digest_algorithm_def vm_defs
  using builtinD[OF builtin_py_contains] builtinD[OF builtin_py_getitem]
  by (auto simp: digest_known_def split: sum.splits)

lemma ok_validate_known:
  "ok digest_known UNIV (\<lambda>e. \<not> is_exception e) (validate rc sd doc)"
proof -
  have li: "\<And>s l. digest_known s \<Longrightarrow> digest_known (s\<lparr>log := l\<rparr>)"
    by (simp add: digest_known_def)
  have m0: "ok digest_known UNIV (\<lambda>e. \<not> is_exception e) (modify (\<lambda>s. s\<lparr>inventory := doc\<rparr>))"
    by (rule ok_modify) (simp add: digest_known_def)
  have id: "ok digest_known UNIV (\<lambda>e. \<not> is_exception e) (validate_id doc)"
    by (rule ok_validate_id) (simp_all add: digest_known_def)
  have ty: "ok digest_known UNIV (\<lambda>e. \<not> is_exception e) (validate_type doc)"
    by (rule ok_validate_type) (simp_all add: digest_known_def)
  have tl: "ok digest_known UNIV (\<lambda>e. \<not> is_exception e) (after_digest_algorithm rc sd doc)"
    by (rule ok_after_digest_algorithm) (simp_all add: digest_known_def)
  show ?thesis
    unfolding validate_after_digest
    by (intro ok_thenE m0 id ty tl ok_validate_digest_algorithm_known)
qed

text \<open>
  C10. A fresh validator ends every run of \<^verbatim>\<open>validate\<close>, on any document, under either
  setting of the lax flag and whether it returns or raises, in a state whose digest
  algorithm is sha512, sha256 or a value adopted under lax mode; every step of the run
  keeps that property, so no call of \<^verbatim>\<open>digest_regex\<close> reaches its \<^verbatim>\<open>raise\<close>: the run never
  ends with that exception.
\<close>

theorem digest_regex_never_raises_in_validate:
  "digest_known (snd (validate rc sd doc (init lg wh lax)))
   \<and> fst (validate rc sd doc (init lg wh lax)) \<noteq> Inl (Exception t j)"
proof -
  have "digest_known (init lg wh lax)" by (simp add: digest_known_def init_def)
  with ok_validate_known[of rc sd doc] show ?thesis
    unfolding ok_def by (auto split: sum.splits)
qed

section \<open>The digest algorithm sha256\<close>

lemma bindE_run: "m s = (Inr x, s1) \<Longrightarrow> bindE m f s = f x s1"
  by (simp add: bindE_def)

lemma thenE_run: "m s = (Inr u, s1) \<Longrightarrow> thenE m n s = n s1"
  by (simp add: thenE_def bindE_def)

lemma ok_state:
  assumes "ok I C X m" and "I s"
  obtains evs where "I (snd (m s))" "log (snd (m s)) = log s @ evs"
    "\<forall>ev\<in>set evs. fst (snd ev) \<in> C"
  using assms unfolding ok_def list_all_iff by blast

lemma validate_id_dict_returns: "fst (validate_id (JDict kvs) s) = Inr ()"
  by (simp add: validate_id_def vm_defs map_of_eq_None_iff split: option.splits json.splits)

lemma validate_type_dict_returns: "fst (validate_type (JDict kvs) s) = Inr ()"
  by (simp add: validate_type_def vm_defs map_of_eq_None_iff split: option.splits json.splits)


lemma validate_content_directory_dict_returns:
  "fst (validate_content_directory (JDict kvs) s) = Inr ()"
  by (simp add: validate_content_directory_def vm_defs map_of_eq_None_iff split: option.splits json.splits)

text \<open>On a dict, the checks of id and type return, and change nothing but the log.\<close>

lemma id_and_type_on_dict:
  obtains s3 evs where
    "thenE (modify (\<lambda>s. s\<lparr>inventory := JDict kvs\<rparr>))
       (thenE (validate_id (JDict kvs)) (thenE (validate_type (JDict kvs)) n)) s = n s3"
    "same_but_log (s\<lparr>inventory := JDict kvs\<rparr>) s3" "log s3 = log s @ evs"
    "\<forall>ev\<in>set evs. fst (snd ev) \<in> {''E100'', ''E101'', ''W207'', ''E102'', ''E103''}"
proof -
  let ?doc = "JDict kvs"
  let ?C = "{''E100'', ''E101'', ''W207'', ''E102'', ''E103''}"
  define s1 where "s1 = s\<lparr>inventory := ?doc\<rparr>"
  define s2 where "s2 = snd (validate_id ?doc s1)"
  define s3 where "s3 = snd (validate_type ?doc s2)"
  have li: "\<And>x l. same_but_log s1 x \<Longrightarrow> same_but_log s1 (x\<lparr>log := l\<rparr>)"
    by (simp add: same_but_log_def)
  have 1: "same_but_log s1 s1" by (simp add: same_but_log_def)
  have "ok (same_but_log s1) ?C (\<lambda>_. True) (validate_id ?doc)"
    by (rule ok_validate_id) (simp_all add: li)
  from ok_state[OF this 1] obtain evs2 where
    2: "same_but_log s1 s2" "log s2 = log s1 @ evs2" "\<forall>ev\<in>set evs2. fst (snd ev) \<in> ?C"
    unfolding s2_def by blast
  have "ok (same_but_log s1) ?C (\<lambda>_. True) (validate_type ?doc)"
    by (rule ok_validate_type) (simp_all add: li)
  from ok_state[OF this 2(1)] obtain evs3 where
    3: "same_but_log s1 s3" "log s3 = log s2 @ evs3" "\<forall>ev\<in>set evs3. fst (snd ev) \<in> ?C"
    unfolding s3_def by blast
  have r2: "validate_id ?doc s1 = (Inr (), s2)"
    using validate_id_dict_returns[of kvs s1] by (simp add: s2_def prod_eq_iff)
  have r3: "validate_type ?doc s2 = (Inr (), s3)"
    using validate_type_dict_returns[of kvs s2] by (simp add: s3_def prod_eq_iff)
  have run: "thenE (modify (\<lambda>s. s\<lparr>inventory := ?doc\<rparr>))
       (thenE (validate_id ?doc) (thenE (validate_type ?doc) n)) s = n s3"
    using r2 r3 by (simp add: thenE_def bindE_def modify_def s1_def)
  show ?thesis
    using 2 3 by (intro that[OF run, of "evs2 @ evs3"]) (auto simp: s1_def)
qed


lemma same_but_log_fields:
  assumes "same_but_log s x"
  shows "lax_digests x = lax_digests s" "location x = location s"
    "content_directory x = content_directory s" "digest_algorithm x = digest_algorithm s"
    "all_versions x = all_versions s"
proof -
  have e: "x\<lparr>log := []\<rparr> = s\<lparr>log := []\<rparr>" using assms by (simp add: same_but_log_def)
  show "lax_digests x = lax_digests s" using arg_cong[OF e, of lax_digests] by simp
  show "location x = location s" using arg_cong[OF e, of location] by simp
  show "content_directory x = content_directory s"
    using arg_cong[OF e, of content_directory] by simp
  show "digest_algorithm x = digest_algorithm s"
    using arg_cong[OF e, of digest_algorithm] by simp
  show "all_versions x = all_versions s" using arg_cong[OF e, of all_versions] by simp
qed

lemma dict_has_key: "map_of kvs k = Some v \<Longrightarrow> k \<in> fst ` set kvs"
  by (auto dest!: map_of_SomeD intro: rev_image_eqI)

lemma digest_algorithm_sha256:
  assumes "map_of kvs ''digestAlgorithm'' = Some (JStr ''sha256'')"
  shows "validate_digest_algorithm (JDict kvs) s =
           (Inr (),
            if lax_digests s then s\<lparr>digest_algorithm := JStr ''sha256''\<rparr>
            else s\<lparr>log := log s @ [(Warning, ''W206'', [(''where'', JStr (location s))])],
                   digest_algorithm := JStr ''sha256''\<rparr>)"
  using assms dict_has_key[OF assms] by (simp add: validate_digest_algorithm_def vm_defs)

lemma reported_append:
  "reported sev code (xs @ ys) = (reported sev code xs \<or> reported sev code ys)"
  by (auto simp: reported_def list_ex_iff)

lemma not_reported_outside:
  "\<forall>ev\<in>set evs. fst (snd ev) \<in> C \<Longrightarrow> code \<notin> C \<Longrightarrow> \<not> reported sev code evs"
  by (auto simp: reported_def list_ex_iff)

text \<open>
  C6, as the code has it. For every inventory (a dict) whose \<^verbatim>\<open>digestAlgorithm\<close> is sha256
  and every validator state, \<^verbatim>\<open>validate\<close> leaves sha256 as the digest algorithm, whether it
  returns or raises later; the warning W206 is among the calls of the log it made exactly
  when the validator is not in lax mode.
\<close>

theorem sha256_adopted_and_warned_unless_lax:
  assumes "map_of kvs ''digestAlgorithm'' = Some (JStr ''sha256'')"
  shows "digest_algorithm (snd (validate rc sd (JDict kvs) s)) = JStr ''sha256''
         \<and> (reported Warning ''W206'' (new_events s (snd (validate rc sd (JDict kvs) s)))
              \<longleftrightarrow> \<not> lax_digests s)"
proof -
  let ?doc = "JDict kvs"
  let ?tail = "after_digest_algorithm rc sd ?doc"
  obtain s3 evs3 where
    run: "validate rc sd ?doc s = thenE (validate_digest_algorithm ?doc) ?tail s3"
    and same: "same_but_log (s\<lparr>inventory := ?doc\<rparr>) s3"
    and log3: "log s3 = log s @ evs3"
    and c3: "\<forall>ev\<in>set evs3. fst (snd ev) \<in> {''E100'', ''E101'', ''W207'', ''E102'', ''E103''}"
    unfolding validate_after_digest by (rule id_and_type_on_dict)
  have lax3: "lax_digests s3 = lax_digests s"
    using same_but_log_fields(1)[OF same] by simp
  define evs4 where
    "evs4 = (if lax_digests s then [] else [(Warning, ''W206'', [(''where'', JStr (location s3))])])"
  define s4 where "s4 = s3\<lparr>log := log s3 @ evs4, digest_algorithm := JStr ''sha256''\<rparr>"
  have d: "validate_digest_algorithm ?doc s3 = (Inr (), s4)"
    by (simp add: digest_algorithm_sha256[OF assms] s4_def evs4_def lax3)
  have run': "validate rc sd ?doc s = ?tail s4"
    unfolding run by (simp add: thenE_def bindE_def d)
  have "ok (\<lambda>x. digest_algorithm x = JStr ''sha256'') (- {''W206''}) (\<lambda>_. True) ?tail"
    by (rule ok_after_digest_algorithm)
       (simp_all add: manifest_codes_def sequence_codes_def version_codes_def)
  moreover have "digest_algorithm s4 = JStr ''sha256''" by (simp add: s4_def)
  ultimately obtain evs5 where
    5: "digest_algorithm (snd (?tail s4)) = JStr ''sha256''"
       "log (snd (?tail s4)) = log s4 @ evs5" "\<forall>ev\<in>set evs5. fst (snd ev) \<in> - {''W206''}"
    by (rule ok_state)
  have "log s4 = log s @ evs3 @ evs4" by (simp add: s4_def log3)
  with 5(2) have "log (snd (?tail s4)) = log s @ evs3 @ evs4 @ evs5" by simp
  then have new: "new_events s (snd (?tail s4)) = evs3 @ evs4 @ evs5"
    by (simp add: new_events_def)
  have n3: "\<not> reported Warning ''W206'' evs3"
    by (rule not_reported_outside[OF c3]) simp
  have n5: "\<not> reported Warning ''W206'' evs5"
    by (rule not_reported_outside[OF 5(3)]) simp
  have r4: "reported Warning ''W206'' evs4 \<longleftrightarrow> \<not> lax_digests s"
    by (simp add: evs4_def reported_def)
  show ?thesis
    using 5(1) n3 n5 r4 by (simp add: run' new reported_append)
qed

text \<open>The theorem at a concrete document, with its hypotheses checked there.\<close>

theorem sha256_adopted_and_warned_unless_lax_witness:
  "map_of [(''digestAlgorithm'', JStr ''sha256'')] ''digestAlgorithm'' = Some (JStr ''sha256'')
   \<and> digest_algorithm
        (snd (validate (\<lambda>_. None) (\<lambda>_. Inr ()) (JDict [(''digestAlgorithm'', JStr ''sha256'')])
                (init [] ''x'' False)))
      = JStr ''sha256''
   \<and> (reported Warning ''W206''
         (new_events (init [] ''x'' False)
            (snd (validate (\<lambda>_. None) (\<lambda>_. Inr ())
                    (JDict [(''digestAlgorithm'', JStr ''sha256'')]) (init [] ''x'' False))))
       \<longleftrightarrow> \<not> lax_digests (init [] ''x'' False))"
  using sha256_adopted_and_warned_unless_lax
          [of "[(''digestAlgorithm'', JStr ''sha256'')]" "\<lambda>_. None" "\<lambda>_. Inr ()"
              "init [] ''x'' False"]
  by simp

text \<open>The claim as stated fails: a lax validator adopts sha256 and does not warn.\<close>

theorem lax_sha256_not_warned:
  "digest_algorithm
     (snd (validate (\<lambda>_. None) (\<lambda>_. Inr ()) (JDict [(''digestAlgorithm'', JStr ''sha256'')])
             (init [] ''x'' True)))
     = JStr ''sha256''
   \<and> \<not> reported Warning ''W206''
         (log (snd (validate (\<lambda>_. None) (\<lambda>_. Inr ())
                      (JDict [(''digestAlgorithm'', JStr ''sha256'')]) (init [] ''x'' True))))"
  by (simp add: validate_defs vm_defs init_def reported_def py_index_def)

section \<open>The content directory\<close>





section \<open>The head\<close>

lemma bindE_InrD:
  assumes "bindE m f s = (Inr y, s')"
  obtains x s1 where "m s = (Inr x, s1)" "f x s1 = (Inr y, s')"
  using assms by (auto simp: bindE_def split: prod.splits sum.splits)

lemma thenE_InrD:
  assumes "thenE m n s = (Inr y, s')"
  obtains s1 where "m s = (Inr (), s1)" "n s1 = (Inr y, s')"
  using assms by (auto simp: thenE_def bindE_def split: prod.splits sum.splits)

lemma ok_up_to_versions:
  "ok (\<lambda>_. True) (- {''E914'', ''E106''}) (\<lambda>_. True) (up_to_versions rc sd doc)"
proof -
  let ?I = "\<lambda>_ :: validator. True"
  let ?C = "- {''E914'', ''E106''}"
  let ?X = "\<lambda>_ :: exn. True"
  have m0: "ok ?I ?C ?X (modify (\<lambda>s. s\<lparr>inventory := doc\<rparr>))"
    by (rule ok_modify) simp
  have i: "ok ?I ?C ?X (validate_id doc)" by (rule ok_validate_id) simp_all
  have t: "ok ?I ?C ?X (validate_type doc)" by (rule ok_validate_type) simp_all
  have d: "ok ?I ?C ?X (validate_digest_algorithm doc)"
    by (rule ok_validate_digest_algorithm) simp_all
  have c: "ok ?I ?C ?X (validate_content_directory doc)"
    by (rule ok_validate_content_directory) simp_all
  have m: "ok ?I ?C ?X (validate_manifest_field rc doc)"
    by (rule ok_validate_manifest_field) simp_all
  have v: "ok ?I ?C ?X (validate_versions_field sd doc)"
    by (rule ok_validate_versions_field) (simp_all add: version_codes_def)
  show ?thesis
    unfolding up_to_versions_def by (intro ok_thenE m0 i t d c m v)
qed

lemma py_index_last: "vs \<noteq> [] \<Longrightarrow> py_index vs (- 1) = Inr (last vs)"
  by (cases vs rule: rev_cases) (simp_all add: py_index_def nat_add_distrib)

lemma head_step_absent:
  assumes "map_of kvs ''head'' = None"
  shows "validate_head (JDict kvs) s =
           (Inr (), s\<lparr>log := log s @ [(Error, ''E106'', [(''where'', JStr (location s))])]\<rparr>)"
proof -
  have "''head'' \<notin> fst ` set kvs" using assms by (simp add: map_of_eq_None_iff)
  then show ?thesis by (simp add: validate_head_def vm_defs)
qed

lemma head_step_empty:
  assumes "map_of kvs ''head'' = Some got" and "all_versions s = []"
  shows "validate_head (JDict kvs) s = (Inl IndexError, s)"
  using assms dict_has_key[OF assms(1)] by (simp add: validate_head_def vm_defs py_index_def)

lemma head_step_present:
  assumes "map_of kvs ''head'' = Some got" and "all_versions s \<noteq> []"
  shows "validate_head (JDict kvs) s =
           (Inr (),
            if py_ne got (JStr (last (all_versions s)))
            then s\<lparr>head := JStr (last (all_versions s)),
                   log := log s @ [(Error, ''E914'',
                             [(''where'', JStr (location s)), (''got'', got),
                              (''expected'', JStr (last (all_versions s)))])]\<rparr>
            else s\<lparr>head := JStr (last (all_versions s))\<rparr>)"
  using assms(1) dict_has_key[OF assms(1)] py_index_last[OF assms(2)]
  by (simp add: validate_head_def vm_defs)

lemma up_to_versions_events:
  "\<exists>evs. log (snd (up_to_versions rc sd doc s)) = log s @ evs
         \<and> (\<forall>ev\<in>set evs. fst (snd ev) \<in> - {''E914'', ''E106''})"
proof -
  have "ok (\<lambda>_. True) (- {''E914'', ''E106''}) (\<lambda>_. True) (up_to_versions rc sd doc)"
    by (rule ok_up_to_versions)
  then have "\<exists>evs. log (snd (up_to_versions rc sd doc s)) = log s @ evs
                 \<and> list_all (\<lambda>ev. fst (snd ev) \<in> - {''E914'', ''E106''}) evs"
    unfolding ok_def by (elim allE[where x = s]) simp
  then show ?thesis unfolding list_all_iff .
qed

text \<open>
  C4, as the code has it. When \<^verbatim>\<open>validate\<close> returns on an inventory (a dict), it has
  reported E914 exactly when the inventory has a head that differs from the last entry of
  the valid version sequence, and E106 exactly when the inventory has no head: a missing
  head is an error too.
\<close>

theorem head_errors_of_a_returning_run:
  assumes "validate rc sd (JDict kvs) s = (Inr (), s')"
  shows "(reported Error ''E914'' (new_events s s')
            \<longleftrightarrow> (case map_of kvs ''head'' of
                   None \<Rightarrow> False
                 | Some got \<Rightarrow> py_ne got (JStr (last (all_versions s')))))
         \<and> (reported Error ''E106'' (new_events s s') \<longleftrightarrow> map_of kvs ''head'' = None)"
proof -
  let ?doc = "JDict kvs"
  from assms obtain du s1 where
    1: "up_to_versions rc sd ?doc s = (Inr du, s1)"
    and r: "thenE (validate_head ?doc) (validate_digests ?doc du) s1 = (Inr (), s')"
    unfolding validate_up_to_versions by (rule bindE_InrD)
  from r obtain s2 where
    2: "validate_head ?doc s1 = (Inr (), s2)"
    and 3: "validate_digests ?doc du s2 = (Inr (), s')"
    by (rule thenE_InrD)
  from up_to_versions_events[of rc sd ?doc s] obtain evs1 where
    "log (snd (up_to_versions rc sd ?doc s)) = log s @ evs1"
    "\<forall>ev\<in>set evs1. fst (snd ev) \<in> - {''E914'', ''E106''}"
    by (elim exE conjE)
  then have log1: "log s1 = log s @ evs1"
    and c1: "\<forall>ev\<in>set evs1. fst (snd ev) \<in> - {''E914'', ''E106''}"
    by (simp_all add: 1)
  have "ok (\<lambda>x. all_versions x = all_versions s2) {''E913'', ''E302''} (\<lambda>_. True)
          (validate_digests ?doc du)"
    by (rule ok_validate_digests) simp_all
  from ok_state[OF this refl] obtain evs3 where
    "all_versions (snd (validate_digests ?doc du s2)) = all_versions s2"
    "log (snd (validate_digests ?doc du s2)) = log s2 @ evs3"
    "\<forall>ev\<in>set evs3. fst (snd ev) \<in> {''E913'', ''E302''}"
    by blast
  then have av: "all_versions s' = all_versions s2" and log3: "log s' = log s2 @ evs3"
    and c3: "\<forall>ev\<in>set evs3. fst (snd ev) \<in> {''E913'', ''E302''}"
    by (simp_all add: 3)
  have n1: "\<not> reported Error ''E914'' evs1" "\<not> reported Error ''E106'' evs1"
    by (rule not_reported_outside[OF c1], simp)+
  have n3: "\<not> reported Error ''E914'' evs3" "\<not> reported Error ''E106'' evs3"
    by (rule not_reported_outside[OF c3], simp)+
  show ?thesis
  proof (cases "map_of kvs ''head''")
    case None
    from 2 have "s2 = s1\<lparr>log := log s1 @ [(Error, ''E106'', [(''where'', JStr (location s1))])]\<rparr>"
      by (simp add: head_step_absent[OF None])
    then have "log s2 = log s1 @ [(Error, ''E106'', [(''where'', JStr (location s1))])]"
      by simp
    then have "new_events s s' = evs1 @ [(Error, ''E106'', [(''where'', JStr (location s1))])] @ evs3"
      by (simp add: new_events_def log3 log1)
    then show ?thesis
      using None n1 n3 by (simp add: reported_append) (simp add: reported_def)
  next
    case (Some got)
    from 2 have ne: "all_versions s1 \<noteq> []"
      using head_step_empty[OF Some, of s1] by auto
    let ?h = "JStr (last (all_versions s1))"
    define evs2 where
      "evs2 = (if py_ne got ?h
               then [(Error, ''E914'', [(''where'', JStr (location s1)), (''got'', got),
                                        (''expected'', ?h)])]
               else [])"
    have "validate_head ?doc s1 =
            (Inr (), s1\<lparr>head := ?h, log := log s1 @ evs2\<rparr>)"
      by (simp add: head_step_present[OF Some ne] evs2_def)
    with 2 have "s2 = s1\<lparr>head := ?h, log := log s1 @ evs2\<rparr>" by simp
    then have s2: "log s2 = log s1 @ evs2" "all_versions s2 = all_versions s1"
      by simp_all
    have new: "new_events s s' = evs1 @ evs2 @ evs3"
      by (simp add: new_events_def log3 s2 log1)
    have "reported Error ''E914'' evs2 \<longleftrightarrow> py_ne got ?h" "\<not> reported Error ''E106'' evs2"
      by (simp_all add: evs2_def reported_def)
    then show ?thesis
      using Some n1 n3 by (simp add: new reported_append av s2(2))
  qed
qed

lemma validate_empty_dict:
  "validate (\<lambda>_. None) (\<lambda>_. Inr ()) (JDict []) (init [] ''x'' False)
   = (Inr (), snd (validate (\<lambda>_. None) (\<lambda>_. Inr ()) (JDict []) (init [] ''x'' False)))"
  by (simp add: validate_defs vm_defs init_def)

text \<open>The theorem at a concrete document, with its hypotheses checked there.\<close>

theorem head_errors_of_a_returning_run_witness:
  "validate (\<lambda>_. None) (\<lambda>_. Inr ()) (JDict []) (init [] ''x'' False)
     = (Inr (), snd (validate (\<lambda>_. None) (\<lambda>_. Inr ()) (JDict []) (init [] ''x'' False)))
   \<and> (reported Error ''E914''
         (new_events (init [] ''x'' False)
            (snd (validate (\<lambda>_. None) (\<lambda>_. Inr ()) (JDict []) (init [] ''x'' False))))
       \<longleftrightarrow> False)
   \<and> (reported Error ''E106''
         (new_events (init [] ''x'' False)
            (snd (validate (\<lambda>_. None) (\<lambda>_. Inr ()) (JDict []) (init [] ''x'' False))))
       \<longleftrightarrow> True)"
  using head_errors_of_a_returning_run[OF validate_empty_dict] validate_empty_dict
  by simp

text \<open>
  The claim as stated fails: an inventory that lacks nothing but the head gets the
  error E106, and nothing else.
\<close>

theorem missing_head_is_an_error:
  "validate (\<lambda>_. None) (\<lambda>_. Inr ()) headless_doc (init [] ''x'' False)
   = (Inr (),
      (init [(Error, ''E106'', [(''where'', JStr ''x'')])] ''x'' False)
        \<lparr>inventory := headless_doc, all_versions := [''v1'', ''v2''], manifest_files := Some []\<rparr>)"
  by (simp add: validate_defs validate_manifest_def validate_version_sequence_def
        validate_versions_def validate_state_block_def validate_created_def
        validate_message_def validate_user_def check_digests_present_and_used_def
        seq_loop.simps decimal.simps digest_regex_def
        headless_doc_def version_entry_def
        id_regex_def zone_regex_def time_regex_def re_match_def re_search_def
        is_digit_def is_word_def in_class_def in_ranges_def newline_def
        vm_defs init_def py_index_def py_ne_def)

section \<open>Digest keys in lax mode, key by key\<close>

lemma validate_manifest_steps:
  "validate_manifest rc (JDict kvs) = forE (map fst kvs) (manifest_step rc (JDict kvs)) []"
  by (simp add: validate_manifest_def manifest_step_def[abs_def])

text \<open>\<^verbatim>\<open>.*$\<close> matches a string exactly when no newline stands before its last
  character.\<close>

lemma star_dot_eol:
  "length s \<le> k \<Longrightarrow>
   (\<exists>st\<in>set (star_ends (step_char (\<lambda>x. x \<noteq> newline)) k (i, s)). snd st = [] \<or> snd st = [newline])
   \<longleftrightarrow> newline \<notin> set (butlast s)"
proof (induction s arbitrary: k i)
  case Nil
  then show ?case by (cases k) simp_all
next
  case (Cons c cs)
  then obtain k' where k: "k = Suc k'" and le: "length cs \<le> k'" by (cases k) auto
  show ?case
  proof (cases "cs = []")
    case True
    then show ?thesis using k by (cases k') auto
  next
    case False
    then show ?thesis using k Cons.IH[OF le, of "Suc i"] by auto
  qed
qed

lemma lax_regex_matches: "re_match lax_regex d \<longleftrightarrow> \<not> inner_newline d"
  unfolding re_match_def lax_regex_def ends_Seq_nonempty ends_Eol_nonempty inner_newline_def
  using star_dot_eol[of d "length d" 0] by simp


lemma with_code_append: "with_code c (xs @ ys) = with_code c xs @ with_code c ys"
  by (simp add: with_code_def)

lemma with_code_outside:
  "\<forall>ev\<in>set evs. fst (snd ev) \<in> - {c} \<Longrightarrow> with_code c evs = []"
  by (auto simp: with_code_def filter_empty_conv)

lemma manifest_step_rejected:
  assumes "lax_adopted s" and "inner_newline d"
  shows "manifest_step rc m d mf s = (Inr mf, s\<lparr>log := log s @ [digest_error (location s) d]\<rparr>)"
  using assms
  by (simp add: manifest_step_def digest_regex_def lax_adopted_def lax_regex_matches
        digest_error_def vm_defs)

lemma ok_manifest_step_accepted:
  assumes "\<not> inner_newline d"
  shows "ok (\<lambda>x. lax_adopted x \<and> location x = wh) (- {''E304''}) (\<lambda>_. True)
           (manifest_step rc m d mf)"
proof -
  let ?I = "\<lambda>x. lax_adopted x \<and> location x = wh"
  have vp: "ok ?I (- {''E304''}) (\<lambda>_. True) (is_valid_content_path rc p)" for p
    by (rule ok_is_valid_content_path) simp
  have te: "ok ?I (- {''E304''}) (\<lambda>_. True) (raise TypeError)"
    for dummy :: "(json \<times> string) list"
    by (rule ok_raise) simp
  have li: "\<And>s l. ?I s \<Longrightarrow> ?I (s\<lparr>log := l\<rparr>)"
    by (simp add: lax_adopted_def)
  have c: "''E308'' \<in> - {''E304''}" "''E913'' \<in> - {''E304''}" by simp_all
  have acc: "re_match lax_regex d" using assms by (simp add: lax_regex_matches)
  show ?thesis
    unfolding manifest_step_def
    apply (rule ok_bind_digest_regex_lax, simp)
    apply (simp only: acc not_True_eq_False if_False)
    apply (intro ok_rules vp te c li | assumption | simp)+
    done
qed

text \<open>The loop reports E304 for the rejected digests among those it reaches, in their
  order, and reaches all of them when it returns.\<close>

lemma manifest_loop:
  assumes "lax_adopted s" and "location s = wh"
  shows "\<exists>n evs. n \<le> length ds
           \<and> log (snd (forE ds (manifest_step rc m) acc s)) = log s @ evs
           \<and> with_code ''E304'' evs = map (digest_error wh) (filter inner_newline (take n ds))
           \<and> ((\<exists>x. fst (forE ds (manifest_step rc m) acc s) = Inr x) \<longrightarrow> n = length ds)"
  using assms
proof (induction ds arbitrary: acc s)
  case Nil
  show ?case by (simp add: returnE_def with_code_def)
next
  case (Cons d ds)
  let ?step = "manifest_step rc m d acc"
  obtain r s1 where rs: "?step s = (r, s1)" by (cases "?step s")
  have 1: "lax_adopted s1 \<and> location s1 = wh
           \<and> (\<exists>e1. log s1 = log s @ e1
                 \<and> with_code ''E304'' e1 = map (digest_error wh) (filter inner_newline [d]))"
  proof (cases "inner_newline d")
    case True
    from manifest_step_rejected[OF Cons.prems(1) True, of rc m acc] rs
    have "s1 = s\<lparr>log := log s @ [digest_error wh d]\<rparr>" by (simp add: Cons.prems(2))
    then show ?thesis
      using Cons.prems True by (simp add: lax_adopted_def with_code_def digest_error_def)
  next
    case False
    from ok_state[OF ok_manifest_step_accepted[OF False, of wh rc m acc], of s] Cons.prems
    obtain e1 where
      "lax_adopted (snd (?step s)) \<and> location (snd (?step s)) = wh"
      "log (snd (?step s)) = log s @ e1" "\<forall>ev\<in>set e1. fst (snd ev) \<in> - {''E304''}"
      by blast
    then show ?thesis
      using False rs with_code_outside[of e1 "''E304''"] by auto
  qed
  then obtain e1 where e1: "log s1 = log s @ e1"
    "with_code ''E304'' e1 = map (digest_error wh) (filter inner_newline [d])"
    and i1: "lax_adopted s1" "location s1 = wh"
    by blast
  show ?case
  proof (cases r)
    case (Inl e)
    then have "forE (d # ds) (manifest_step rc m) acc s = (Inl e, s1)"
      using rs by (simp add: bindE_def)
    then show ?thesis
      using e1 by (intro exI[of _ "Suc 0"] exI[of _ e1]) simp
  next
    case (Inr acc')
    then have run: "forE (d # ds) (manifest_step rc m) acc s = forE ds (manifest_step rc m) acc' s1"
      using rs by (simp add: bindE_def)
    from Cons.IH[OF i1, of acc'] obtain n evs where
      n: "n \<le> length ds"
      and l: "log (snd (forE ds (manifest_step rc m) acc' s1)) = log s1 @ evs"
      and w: "with_code ''E304'' evs = map (digest_error wh) (filter inner_newline (take n ds))"
      and f: "(\<exists>x. fst (forE ds (manifest_step rc m) acc' s1) = Inr x) \<longrightarrow> n = length ds"
      by blast
    show ?thesis
      unfolding run
      using n l w f e1
      by (intro exI[of _ "Suc n"] exI[of _ "e1 @ evs"]) (auto simp: with_code_append)
  qed
qed

text \<open>
  C7, as the code has it. In lax mode with an algorithm other than sha512 and sha256
  adopted, and for any manifest dict: the E304 errors \<^verbatim>\<open>validate_manifest\<close> reports are,
  in order and one each, those for the digest keys that hold a newline before their last
  character, among the keys the loop reaches; it reaches all keys when it returns (it
  stops early only by raising on a content path). So each key is judged by itself: a key
  is rejected exactly when a newline stands before its last character, and every other
  key is accepted, the empty string and a key that ends in its only newline included.
\<close>

theorem lax_manifest_rejects_exactly_inner_newlines:
  assumes "lax_digests s"
    and "\<not> py_eq (digest_algorithm s) (JStr ''sha512'')"
    and "\<not> py_eq (digest_algorithm s) (JStr ''sha256'')"
  shows "\<exists>n. n \<le> length kvs
           \<and> with_code ''E304'' (new_events s (snd (validate_manifest re_compile (JDict kvs) s)))
             = map (digest_error (location s)) (filter inner_newline (take n (map fst kvs)))
           \<and> ((\<exists>mf. fst (validate_manifest re_compile (JDict kvs) s) = Inr mf)
                \<longrightarrow> n = length kvs)"
proof -
  have "lax_adopted s" using assms by (simp add: lax_adopted_def)
  from manifest_loop[OF this refl, of "map fst kvs" re_compile "JDict kvs" "[]"]
  obtain n evs where "n \<le> length kvs"
    "log (snd (validate_manifest re_compile (JDict kvs) s)) = log s @ evs"
    "with_code ''E304'' evs
     = map (digest_error (location s)) (filter inner_newline (take n (map fst kvs)))"
    "(\<exists>mf. fst (validate_manifest re_compile (JDict kvs) s) = Inr mf) \<longrightarrow> n = length kvs"
    unfolding validate_manifest_steps by auto
  then show ?thesis
    by (intro exI[of _ n]) (simp add: new_events_def)
qed
text \<open>The theorem at a manifest with a rejected key before three accepted ones.\<close>

theorem lax_manifest_rejects_exactly_inner_newlines_witness:
  "lax_digests ((init [] ''x'' True)\<lparr>digest_algorithm := JStr ''md5''\<rparr>)
   \<and> \<not> py_eq (digest_algorithm ((init [] ''x'' True)\<lparr>digest_algorithm := JStr ''md5''\<rparr>))
          (JStr ''sha512'')
   \<and> \<not> py_eq (digest_algorithm ((init [] ''x'' True)\<lparr>digest_algorithm := JStr ''md5''\<rparr>))
          (JStr ''sha256'')
   \<and> with_code ''E304''
        (new_events ((init [] ''x'' True)\<lparr>digest_algorithm := JStr ''md5''\<rparr>)
           (snd (validate_manifest (\<lambda>_. None)
                   (JDict [(''a'' @ newline # ''b'', JList []), (''abc'', JList []),
                           (''ab'' @ [newline], JList []), ([], JList [])])
                   ((init [] ''x'' True)\<lparr>digest_algorithm := JStr ''md5''\<rparr>))))
      = [digest_error ''x'' (''a'' @ newline # ''b'')]"
proof -
  let ?s = "(init [] ''x'' True)\<lparr>digest_algorithm := JStr ''md5''\<rparr>"
  let ?kvs = "[(''a'' @ newline # ''b'', JList []), (''abc'', JList []),
               (''ab'' @ [newline], JList []), ([], JList [])]"
  have h: "lax_digests ?s" "\<not> py_eq (digest_algorithm ?s) (JStr ''sha512'')"
    "\<not> py_eq (digest_algorithm ?s) (JStr ''sha256'')"
    by (simp_all add: init_def)
  from lax_manifest_rejects_exactly_inner_newlines[OF h, of ?kvs "\<lambda>_. None"]
  obtain n where
    w: "with_code ''E304'' (new_events ?s (snd (validate_manifest (\<lambda>_. None) (JDict ?kvs) ?s)))
        = map (digest_error (location ?s)) (filter inner_newline (take n (map fst ?kvs)))"
    and r: "(\<exists>mf. fst (validate_manifest (\<lambda>_. None) (JDict ?kvs) ?s) = Inr mf)
            \<longrightarrow> n = length ?kvs"
    by blast
  have "\<exists>mf. fst (validate_manifest (\<lambda>_. None) (JDict ?kvs) ?s) = Inr mf"
    by (simp add: validate_manifest_def digest_regex_def lax_regex_matches inner_newline_def
          vm_defs init_def newline_def)
  with r have "n = 4" by simp
  with w have "with_code ''E304''
                 (new_events ?s (snd (validate_manifest (\<lambda>_. None) (JDict ?kvs) ?s)))
               = [digest_error ''x'' (''a'' @ newline # ''b'')]"
    by (simp add: inner_newline_def newline_def init_def)
  with h show ?thesis by (intro conjI)
qed

text \<open>
  The claim as stated fails in both directions: a lax validator given
  \<^verbatim>\<open>digestAlgorithm\<close> md5 and a manifest with the empty string and \<^verbatim>\<open>a\nb\<close> as digest keys
  adopts md5, accepts the empty key and reports E304 for the other, which is not empty.
\<close>

theorem lax_accepts_empty_and_rejects_inner_newline:
  "digest_algorithm
     (snd (validate (\<lambda>_. None) (\<lambda>_. Inr ())
             (JDict [(''digestAlgorithm'', JStr ''md5''),
                     (''manifest'', JDict [([], JList []), (''a'' @ newline # ''b'', JList [])])])
             (init [] ''x'' True)))
     = JStr ''md5''
   \<and> with_code ''E304''
        (log (snd (validate (\<lambda>_. None) (\<lambda>_. Inr ())
                     (JDict [(''digestAlgorithm'', JStr ''md5''),
                             (''manifest'',
                              JDict [([], JList []), (''a'' @ newline # ''b'', JList [])])])
                     (init [] ''x'' True))))
      = [digest_error ''x'' (''a'' @ newline # ''b'')]"
  by (simp add: validate_defs validate_manifest_def digest_regex_def lax_regex_matches
        inner_newline_def with_code_def digest_error_def vm_defs init_def newline_def
        py_index_def)

end
